theory Spec2Isabelle
  imports Main "HOL-Library.Sublist"
begin

section \<open>JavaScript strings\<close>

text \<open>
  A JavaScript string is a sequence of UTF-16 code units. The model keeps the code units
  below 256 (Latin-1), which is the \<^typ>\<open>char\<close> of HOL; host names, DNS record data and
  header values of this program are ASCII. \<open>-1\<close> as the result of \<open>indexOf\<close> is \<open>None\<close>.
\<close>

definition isWhiteSpace :: "char \<Rightarrow> bool" where
  "isWhiteSpace c = ((of_char c :: nat) \<in> {9, 10, 11, 12, 13, 32, 160})"

definition trim :: "string \<Rightarrow> string" where
  "trim s = rev (dropWhile isWhiteSpace (rev (dropWhile isWhiteSpace s)))"

definition isUpper :: "char \<Rightarrow> bool" where
  "isUpper c = (let n = (of_char c :: nat)
                in (65 \<le> n \<and> n \<le> 90) \<or> (192 \<le> n \<and> n \<le> 222 \<and> n \<noteq> 215))"

definition lowerChar :: "char \<Rightarrow> char" where
  "lowerChar c = (if isUpper c then char_of ((of_char c :: nat) + 32) else c)"

definition toLowerCase :: "string \<Rightarrow> string" where
  "toLowerCase s = map lowerChar s"

definition isDigit :: "char \<Rightarrow> bool" where
  "isDigit c = (let n = (of_char c :: nat) in 48 \<le> n \<and> n \<le> 57)"

text \<open>\<open>s.split(c)\<close> for a one-character separator: never empty, \<open>"".split(",") = [""]\<close>.\<close>

fun split_on :: "char \<Rightarrow> string \<Rightarrow> string list" where
  "split_on c [] = [[]]"
| "split_on c (x # xs) =
     (if x = c then [] # split_on c xs
      else (case split_on c xs of [] \<Rightarrow> [[x]] | y # ys \<Rightarrow> (x # y) # ys))"

text \<open>\<open>parts.join(sep)\<close>.\<close>

fun join :: "string \<Rightarrow> string list \<Rightarrow> string" where
  "join sep [] = []"
| "join sep [x] = x"
| "join sep (x # y # ys) = x @ sep @ join sep (y # ys)"

definition startsWith :: "string \<Rightarrow> string \<Rightarrow> bool" where
  "startsWith s p = (take (length p) s = p)"

definition endsWith :: "string \<Rightarrow> string \<Rightarrow> bool" where
  "endsWith s p = (length p \<le> length s \<and> drop (length s - length p) s = p)"

text \<open>\<open>str.indexOf(c, from)\<close>: the first index at or after \<open>from\<close> that holds \<open>c\<close>.\<close>

fun indexOf_scan :: "char \<Rightarrow> string \<Rightarrow> nat \<Rightarrow> nat option" where
  "indexOf_scan c [] n = None"
| "indexOf_scan c (x # xs) n = (if x = c then Some n else indexOf_scan c xs (Suc n))"

definition indexOf :: "string \<Rightarrow> char \<Rightarrow> nat \<Rightarrow> nat option" where
  "indexOf str c from = indexOf_scan c (drop from str) from"

lemma indexOf_scan_bounds:
  "indexOf_scan c xs n = Some j \<Longrightarrow> n \<le> j \<and> j < n + length xs"
  by (induction xs arbitrary: n) (force split: if_splits)+

lemma indexOf_bounds: "indexOf str c from = Some j \<Longrightarrow> from \<le> j \<and> j < length str"
  unfolding indexOf_def by (drule indexOf_scan_bounds) (cases "from \<le> length str"; simp)

section \<open>PolicyMatcher (src/util.js)\<close>

text \<open>
  \<open>findDotPositions\<close>: the \<open>while (index !== -1)\<close> loop, with the array it pushes to.
\<close>

function findDots_loop :: "string \<Rightarrow> nat option \<Rightarrow> nat list \<Rightarrow> nat list" where
  "findDots_loop str None dotPositions = dotPositions"
| "findDots_loop str (Some index) dotPositions =
     findDots_loop str (indexOf str (CHR ''.'') (index + 1)) (dotPositions @ [index])"
  by pat_completeness auto
termination
proof (relation "measure (\<lambda>(str, idx, acc). case idx of None \<Rightarrow> 0 | Some i \<Rightarrow> Suc (length str - i))")
  show "wf (measure (\<lambda>(str, idx, acc). case idx of None \<Rightarrow> 0 | Some i \<Rightarrow> Suc (length str - i)))"
    by simp
next
  fix str :: string and index :: nat and dotPositions :: "nat list"
  show "((str, indexOf str (CHR ''.'') (index + 1), dotPositions @ [index]),
         (str, Some index, dotPositions))
        \<in> measure (\<lambda>(str, idx, acc). case idx of None \<Rightarrow> 0 | Some i \<Rightarrow> Suc (length str - i))"
  proof (cases "indexOf str (CHR ''.'') (index + 1)")
    case None
    then show ?thesis by simp
  next
    case (Some j)
    from indexOf_bounds [OF Some] have "length str - j < length str - index"
      by arith
    with Some show ?thesis by simp
  qed
qed

definition findDotPositions :: "string \<Rightarrow> nat list" where
  "findDotPositions str = findDots_loop str (indexOf str (CHR ''.'') 0) []"

text \<open>
  A policy map is the object \<open>acc\<close> of \<open>csvToMap\<close>: own properties keyed by strings, all
  of them booleans. Every key the program writes or reads starts with a dot, so no
  property inherited from \<open>Object.prototype\<close> is ever read.
\<close>

type_synonym policy_map = "string \<rightharpoonup> bool"

text \<open>
  The inner loop of \<open>csvToMap\<close>,
  \<^verbatim>\<open>for (let i = labelPositions.length; i-- > 0;) acc[host.slice(labelPositions[i])] = i == 0\<close>:
  the counter is the value of \<open>i\<close> before the test, the body runs at \<open>i - 1\<close>.
\<close>

fun csv_labels :: "string \<Rightarrow> nat list \<Rightarrow> nat \<Rightarrow> policy_map \<Rightarrow> policy_map" where
  "csv_labels host labelPositions 0 acc = acc"
| "csv_labels host labelPositions (Suc i) acc =
     csv_labels host labelPositions i (acc(drop (labelPositions ! i) host \<mapsto> (i = 0)))"

definition csv_host :: "policy_map \<Rightarrow> string \<Rightarrow> policy_map" where
  "csv_host acc host0 =
     (let host = toLowerCase (trim host0);
          labelPositions = findDotPositions host
      in csv_labels host labelPositions (length labelPositions) acc)"

definition csvToMap :: "string \<Rightarrow> policy_map" where
  "csvToMap str = foldl csv_host Map.empty (split_on (CHR '','') str)"

text \<open>
  The module variables of util.js, \<open>null\<close> until the first call of \<open>isHostBlacklisted\<close>,
  and the environment variables it reads (\<open>None\<close> is an unset variable).
\<close>

record policy_state =
  blacklistMap :: "policy_map option"
  whitelistMap :: "policy_map option"
  blacklistRedirectUrl :: "string option"

record environ =
  WHITELIST_HOSTS :: "string option"
  BLACKLIST_HOSTS :: "string option"
  BLACKLIST_REDIRECT :: "string option"
  HOME_DOMAIN :: "string option"
  CACHE_EXPIRY_SECONDS :: "string option"

definition policy_null :: policy_state where
  "policy_null = \<lparr>blacklistMap = None, whitelistMap = None, blacklistRedirectUrl = None\<rparr>"

text \<open>\<open>x || ""\<close> and the truthiness of an optional string.\<close>

definition orEmpty :: "string option \<Rightarrow> string" where
  "orEmpty x = (case x of None \<Rightarrow> [] | Some s \<Rightarrow> s)"

definition truthy :: "string option \<Rightarrow> bool" where
  "truthy x = (case x of None \<Rightarrow> False | Some s \<Rightarrow> s \<noteq> [])"

definition orNull :: "string option \<Rightarrow> string option" where
  "orNull x = (if truthy x then x else None)"

text \<open>The two loops of \<open>isHostBlacklisted\<close>, counted like the loop of \<open>csvToMap\<close>.\<close>

fun blacklist_loop :: "policy_map \<Rightarrow> string \<Rightarrow> nat list \<Rightarrow> nat \<Rightarrow> bool" where
  "blacklist_loop m domain labelPositions 0 = False"
| "blacklist_loop m domain labelPositions (Suc i) =
     (case m (drop (labelPositions ! i) domain) of
        Some False \<Rightarrow> blacklist_loop m domain labelPositions i
      | Some True \<Rightarrow> True
      | None \<Rightarrow> False)"

fun whitelist_loop :: "policy_map \<Rightarrow> string \<Rightarrow> nat list \<Rightarrow> nat \<Rightarrow> bool" where
  "whitelist_loop m domain labelPositions 0 = True"
| "whitelist_loop m domain labelPositions (Suc i) =
     (case m (drop (labelPositions ! i) domain) of
        Some False \<Rightarrow> whitelist_loop m domain labelPositions i
      | Some True \<Rightarrow> False
      | None \<Rightarrow> True)"

text \<open>
  The lazy initialisation at the head of \<open>isHostBlacklisted\<close>; it returns the blacklist
  map that is in force after the block together with the module state.
\<close>

definition policy_init :: "environ \<Rightarrow> policy_state \<Rightarrow> policy_map \<times> policy_state" where
  "policy_init env st =
     (case blacklistMap st of
        Some m \<Rightarrow> (m, st)
      | None \<Rightarrow>
          (let wl = (if truthy (WHITELIST_HOSTS env)
                     then Some (csvToMap (orEmpty (WHITELIST_HOSTS env)))
                     else whitelistMap st);
               m = csvToMap (orEmpty (BLACKLIST_HOSTS env))
           in (m, \<lparr>blacklistMap = Some m, whitelistMap = wl,
                   blacklistRedirectUrl = orNull (BLACKLIST_REDIRECT env)\<rparr>)))"

definition isHostBlacklisted :: "environ \<Rightarrow> policy_state \<Rightarrow> string \<Rightarrow> bool \<times> policy_state" where
  "isHostBlacklisted env st domain =
     (let (bl, st') = policy_init env st;
          labelPositions = findDotPositions domain
      in (case whitelistMap st' of
            None \<Rightarrow> (blacklist_loop bl domain labelPositions (length labelPositions), st')
          | Some wl \<Rightarrow> (whitelist_loop wl domain labelPositions (length labelPositions), st')))"

section \<open>ValidationPipeline (src/util.js and buildCache)\<close>

text \<open>
  A JavaScript number that may be \<open>NaN\<close> (\<open>None\<close>), and a thrown value: an \<open>Error\<close>
  with its message, or a value without a \<open>message\<close> property.
\<close>

type_synonym jsnum = "int option"

datatype js_error = Error string | NoMessage

fun message :: "js_error \<Rightarrow> string option" where
  "message (Error m) = Some m"
| "message NoMessage = None"

definition dq :: string where
  "dq = [CHR 0x22]"

text \<open>
  \<open>parseInt(s)\<close> without a radix: leading white space, a sign, then hexadecimal digits
  after \<open>0x\<close> or decimal digits; \<open>NaN\<close> when there is no digit. (Values beyond
  \<open>2^53\<close> lose precision in JavaScript; the model keeps them exact.)
\<close>

definition digitValue :: "char \<Rightarrow> int" where
  "digitValue c =
     (let n = (of_char c :: nat)
      in if 48 \<le> n \<and> n \<le> 57 then int n - 48
         else if 97 \<le> n \<and> n \<le> 102 then int n - 87
         else int n - 55)"

definition isHexDigit :: "char \<Rightarrow> bool" where
  "isHexDigit c =
     (let n = (of_char c :: nat)
      in (48 \<le> n \<and> n \<le> 57) \<or> (97 \<le> n \<and> n \<le> 102) \<or> (65 \<le> n \<and> n \<le> 70))"

definition digitsValue :: "int \<Rightarrow> string \<Rightarrow> int" where
  "digitsValue radix ds = foldl (\<lambda>a c. a * radix + digitValue c) 0 ds"

definition parseDigits :: "bool \<Rightarrow> string \<Rightarrow> jsnum" where
  "parseDigits hexAllowed u =
     (if hexAllowed \<and> (startsWith u ''0x'' \<or> startsWith u ''0X'')
      then (let ds = takeWhile isHexDigit (drop 2 u)
            in if ds = [] then None else Some (digitsValue 16 ds))
      else (let ds = takeWhile isDigit u
            in if ds = [] then None else Some (digitsValue 10 ds)))"

definition parseSigned :: "bool \<Rightarrow> string \<Rightarrow> jsnum" where
  "parseSigned hexAllowed s =
     (case dropWhile isWhiteSpace s of
        [] \<Rightarrow> None
      | c # u \<Rightarrow>
          if c = CHR ''-'' then map_option uminus (parseDigits hexAllowed u)
          else if c = CHR ''+'' then parseDigits hexAllowed u
          else parseDigits hexAllowed (c # u))"

definition parseInt :: "string \<Rightarrow> jsnum" where
  "parseInt s = parseSigned True s"

text \<open>\<open>parseInt(process.env.CACHE_EXPIRY_SECONDS, 10) || 86400\<close>.\<close>

definition cacheExpirySeconds :: "environ \<Rightarrow> int" where
  "cacheExpirySeconds env =
     (case CACHE_EXPIRY_SECONDS env of
        None \<Rightarrow> 86400
      | Some s \<Rightarrow> (case parseSigned False s of None \<Rightarrow> 86400 | Some n \<Rightarrow> if n = 0 then 86400 else n))"

text \<open>\<open>encodeURIComponent\<close> on code units below 256 (two UTF-8 bytes from 128 on).\<close>

definition isUnreserved :: "char \<Rightarrow> bool" where
  "isUnreserved c =
     (let n = (of_char c :: nat)
      in (48 \<le> n \<and> n \<le> 57) \<or> (65 \<le> n \<and> n \<le> 90) \<or> (97 \<le> n \<and> n \<le> 122)
         \<or> n \<in> {45, 95, 46, 33, 126, 42, 39, 40, 41})"

definition hexDigit :: "nat \<Rightarrow> char" where
  "hexDigit n = (if n < 10 then char_of (48 + n) else char_of (55 + n))"

definition percent :: "nat \<Rightarrow> string" where
  "percent n = [CHR ''%'', hexDigit (n div 16), hexDigit (n mod 16)]"

definition encodeChar :: "char \<Rightarrow> string" where
  "encodeChar c =
     (let n = (of_char c :: nat)
      in if isUnreserved c then [c]
         else if n < 128 then percent n
         else percent (192 + n div 64) @ percent (128 + n mod 64))"

definition encodeURIComponent :: "string \<Rightarrow> string" where
  "encodeURIComponent s = concat (map encodeChar s)"

text \<open>
  The collaborators of one request. \<open>request\<close> is the DNS-over-HTTPS call, from the URL
  to what it throws or to \<open>resolve.data.Answer\<close> (\<open>None\<close>: no \<open>Answer\<close> field); an
  answer record has a numeric type and a string as data. \<open>isIPv4\<close> and \<open>isIPv6\<close> are
  those of node:net, \<open>isFQDN\<close> is the validator package's on a string and
  \<open>isFQDN_throws\<close> is what it throws on a value that is not a string, \<open>qs_domain\<close> is
  the \<open>domain\<close> field of \<open>querystring.parse\<close> (a string, or an array when the field is
  repeated), \<open>challenge\<close> and \<open>stat_json\<close> come from the certificate subsystem, and
  the two clock readings are those of the handler's cache test and of \<open>buildCache\<close>.
\<close>

record answer =
  rr_type :: int
  rr_data :: string

datatype qs_value = QUndefined | QString string | QArray "string list"

record world =
  request :: "string \<Rightarrow> js_error + answer list option"
  isIPv4 :: "string \<Rightarrow> bool"
  isIPv6 :: "string \<Rightarrow> bool"
  isFQDN :: "string \<Rightarrow> bool"
  isFQDN_throws :: js_error
  qs_domain :: "string \<Rightarrow> qs_value"
  challenge :: "string option"
  stat_json :: string
  now_lookup :: int
  now_build :: int

definition isIpAddress :: "world \<Rightarrow> string \<Rightarrow> bool" where
  "isIpAddress w host = (isIPv4 w host \<or> isIPv6 w host)"

definition isExceedLabelLimit :: "string \<Rightarrow> bool" where
  "isExceedLabelLimit host = (length (filter (\<lambda>x. x = CHR ''.'') host) \<ge> 10)"

definition isExceedHostLimit :: "string \<Rightarrow> bool" where
  "isExceedHostLimit host = (length host > 64)"

text \<open>
  \<open>caaRegex\<close>, \<^verbatim>\<open>/^0 issue (")?letsencrypt\.org(;validationmethods=http-01)?\1$/\<close>: the
  back reference repeats the optional quote, so four strings match.
\<close>

definition caaRegex_test :: "string \<Rightarrow> bool" where
  "caaRegex_test x =
     (x \<in> set (concat (map (\<lambda>q. map (\<lambda>v. ''0 issue '' @ q @ ''letsencrypt.org'' @ v @ q)
                                    ['''', '';validationmethods=http-01''])
                          ['''', dq])))"

definition validateCAARecords :: "world \<Rightarrow> string \<Rightarrow> js_error + string list option" where
  "validateCAARecords w host =
     (case request w (''https://dns.google/resolve?name='' @ encodeURIComponent host @ ''&type=CAA'') of
        Inl e \<Rightarrow> Inl e
      | Inr None \<Rightarrow> Inr None
      | Inr (Some Answer) \<Rightarrow>
          (let issueRecords =
                 map rr_data
                   (filter (\<lambda>x. rr_type x = 257 \<and> startsWith (rr_data x) ''0 issue '') Answer)
           in if length issueRecords = 0 \<or> list_ex caaRegex_test issueRecords
              then Inr None
              else Inr (Some issueRecords)))"

text \<open>
  \<open>parseTxtRecordData\<close>: the result object as a map. Only the keys \<open>forward-domain\<close> and
  \<open>http-status\<close> are read from it, and \<open>Object.prototype\<close> has neither.
\<close>

definition txt_part :: "(string \<rightharpoonup> string) \<Rightarrow> string \<Rightarrow> (string \<rightharpoonup> string)" where
  "txt_part result part =
     (case split_on (CHR ''='') part of
        [] \<Rightarrow> result
      | key # val \<Rightarrow>
          if key \<noteq> [] \<and> length val > 0 then result(key \<mapsto> join ''='' val) else result)"

definition parseTxtRecordData :: "string \<Rightarrow> (string \<rightharpoonup> string)" where
  "parseTxtRecordData val = foldl txt_part Map.empty (split_on (CHR '';'') val)"

definition recordParamDestUrl :: string where
  "recordParamDestUrl = ''forward-domain''"

definition recordParamHttpStatus :: string where
  "recordParamHttpStatus = ''http-status''"

record txt_record =
  txt_url :: string
  txt_httpStatus :: "string option"

fun findTxt_loop :: "answer list \<Rightarrow> txt_record option" where
  "findTxt_loop [] = None"
| "findTxt_loop (head # rest) =
     (if rr_type head \<noteq> 16 then findTxt_loop rest
      else (let txtData = parseTxtRecordData (rr_data head)
            in if \<not> truthy (txtData recordParamDestUrl) then findTxt_loop rest
               else Some \<lparr>txt_url = orEmpty (txtData recordParamDestUrl),
                          txt_httpStatus = txtData recordParamHttpStatus\<rparr>))"

definition findTxtRecord :: "world \<Rightarrow> string \<Rightarrow> js_error + txt_record option" where
  "findTxtRecord w host =
     (case request w (''https://dns.google/resolve?name=_.'' @ encodeURIComponent host @ ''&type=TXT'') of
        Inl e \<Rightarrow> Inl e
      | Inr None \<Rightarrow> Inr None
      | Inr (Some Answer) \<Rightarrow> Inr (findTxt_loop Answer))"

text \<open>
  Modelled from the spec: \<open>isHttpCodeAllowed\<close> is imported from util.js by the request
  handler, but util.js as given does not define it. The spec: "the http-status field
  (default "301") must be one of 301,302,307,308". The field is a string.
\<close>

definition isHttpCodeAllowed :: "string \<Rightarrow> bool" where
  "isHttpCodeAllowed code = (code \<in> set [''301'', ''302'', ''307'', ''308''])"

text \<open>The cache entry that \<open>buildCache\<close> returns (the typedef \<open>Cache\<close>).\<close>

record Cache =
  url :: string
  expand :: bool
  blacklisted :: bool
  expire :: int
  httpStatus :: jsnum

text \<open>
  \<open>buildCache\<close>: every \<open>throw\<close> is an \<open>Inl\<close>. The module state of util.js changes only
  where \<open>isHostBlacklisted\<close> is reached. \<open>url.indexOf(p) !== 0\<close> is \<open>\<not> startsWith url p\<close>.
\<close>

definition buildCache ::
  "environ \<Rightarrow> world \<Rightarrow> policy_state \<Rightarrow> string \<Rightarrow> (js_error + Cache) \<times> policy_state" where
  "buildCache env w st host =
     (if isIpAddress w host
      then (Inl (Error ''unable to serve with direct IP address''), st)
      else if isExceedHostLimit host
      then (Inl (Error ''Host name is too long (Must no more than 64 char)''), st)
      else if isExceedLabelLimit host
      then (Inl (Error ''Host parts is too long (Must less than 10 dots)''), st)
      else
        (case validateCAARecords w host of
           Inl e \<Rightarrow> (Inl e, st)
         | Inr (Some caaRecords) \<Rightarrow>
             (Inl (Error (''CAA record is not '' @ dq @ ''letsencrypt.org'' @ dq
                            @ ''. Records found: '' @ join '','' caaRecords @ ''.'')), st)
         | Inr None \<Rightarrow>
             (case findTxtRecord w host of
                Inl e \<Rightarrow> (Inl e, st)
              | Inr None \<Rightarrow>
                  (Inl (Error (''The TXT record data for '' @ dq @ ''_.'' @ host @ dq
                                 @ '' is missing'')), st)
              | Inr (Some recordData) \<Rightarrow>
                  (let url0 = txt_url recordData;
                       httpStatus0 = (case txt_httpStatus recordData of
                                        None \<Rightarrow> ''301'' | Some s \<Rightarrow> s)
                   in if \<not> startsWith url0 ''http://'' \<and> \<not> startsWith url0 ''https://''
                      then (Inl (Error (''The TXT record data for '' @ dq @ ''_.'' @ host @ dq
                                          @ '' is not an absolute URL'')), st)
                      else
                        (let (url1, expand1) =
                               (if endsWith url0 ''*'' then (butlast url0, True)
                                else (url0, False))
                         in if \<not> isHttpCodeAllowed httpStatus0
                            then (Inl (Error (''The record '' @ dq @ url1 @ dq
                                    @ '' wants to use the http status code '' @ httpStatus0
                                    @ '' which is not allowed (only 301, 302, 307 and 308)'')), st)
                            else
                              (let (b, st') = isHostBlacklisted env st host
                               in (Inr \<lparr>url = url1, expand = expand1, blacklisted = b,
                                        expire = now_build w
                                          + cacheExpirySeconds env * 1000,
                                        httpStatus = parseInt httpStatus0\<rparr>, st')))))))"

section \<open>ForwardingCache, RedirectResolver and RequestDispatcher (the request handler)\<close>

text \<open>
  \<open>resolveCache\<close> is an \<open>LRUCache\<close> of the lru-cache package with \<open>max: 10000\<close>: the
  entries, most recently used first. A value is a \<open>Cache\<close> object or the empty string
  that /flushcache stores. \<open>get\<close> makes the entry it finds the most recent one; \<open>set\<close>
  stores at the front and drops the least recently used entries beyond \<open>max\<close>.
\<close>

datatype cache_val = Sentinel | Entry Cache

type_synonym lru = "(string \<times> cache_val) list"

definition lru_max :: nat where
  "lru_max = 10000"

definition lru_get :: "string \<Rightarrow> lru \<Rightarrow> cache_val option \<times> lru" where
  "lru_get k c =
     (case map_of c k of
        None \<Rightarrow> (None, c)
      | Some v \<Rightarrow> (Some v, (k, v) # filter (\<lambda>kv. fst kv \<noteq> k) c))"

definition lru_set :: "string \<Rightarrow> cache_val \<Rightarrow> lru \<Rightarrow> lru" where
  "lru_set k v c = take lru_max ((k, v) # filter (\<lambda>kv. fst kv \<noteq> k) c)"

text \<open>The state of the process: the module variables of util.js and the cache.\<close>

record state =
  policy :: policy_state
  resolveCache :: lru

definition pruneCache :: "state \<Rightarrow> state" where
  "pruneCache s = s\<lparr>resolveCache := []\<rparr>"

text \<open>
  A request: \<open>req_chunks\<close> are the chunks of the body that arrive, and \<open>req_ends\<close> tells
  whether the \<open>end\<close> event follows them (it does not when the connection is cut before
  the whole body has arrived).
\<close>

record http_request =
  req_url :: "string option"
  req_method :: "string option"
  req_host :: "string option"
  req_chunks :: "string list"
  req_ends :: bool

record http_response =
  statusCode :: jsnum
  headers :: "(string \<times> string) list"
  written :: "string list"
  ended :: bool

definition fresh_response :: http_response where
  "fresh_response = \<lparr>statusCode = Some 200, headers = [], written = [], ended = False\<rparr>"

text \<open>
  \<open>res.writeHead\<close> of node:http throws on a status code that is not in 100..999 after
  \<open>statusCode |= 0\<close> (\<open>toInt32\<close>), with the message \<open>Invalid status code: \<close> and the code
  as given, and on a header value with a character outside tab, \<open>0x20..0x7e\<close> and
  \<open>0x80..0xff\<close>, with the message \<open>Invalid character in header content ["name"]\<close>. The
  status is assigned before the header values are checked; a call that throws stores no
  header. The result is what the call throws, if anything, and the response after it.
  (The header names that the handler passes are constants that Node accepts.)
\<close>

definition toInt32 :: "jsnum \<Rightarrow> int" where
  "toInt32 n = (case n of None \<Rightarrow> 0 | Some i \<Rightarrow> (i + 2147483648) mod 4294967296 - 2147483648)"

fun decimal :: "nat \<Rightarrow> string" where
  "decimal n = (if n < 10 then [char_of (48 + n)] else decimal (n div 10) @ [char_of (48 + n mod 10)])"

declare decimal.simps [simp del]

definition numberToString :: "jsnum \<Rightarrow> string" where
  "numberToString n =
     (case n of
        None \<Rightarrow> ''NaN''
      | Some i \<Rightarrow> if i < 0 then ''-'' @ decimal (nat (- i)) else decimal (nat i))"

definition invalidHeaderChar :: "char \<Rightarrow> bool" where
  "invalidHeaderChar c = (let n = (of_char c :: nat) in (n < 32 \<and> n \<noteq> 9) \<or> n = 127)"

definition writeHead ::
  "jsnum \<Rightarrow> (string \<times> string) list \<Rightarrow> http_response \<Rightarrow> js_error option \<times> http_response" where
  "writeHead code hs res =
     (if toInt32 code < 100 \<or> toInt32 code > 999
      then (Some (Error (''Invalid status code: '' @ numberToString code)), res)
      else (let res1 = res\<lparr>statusCode := Some (toInt32 code)\<rparr>
            in (case find (\<lambda>h. list_ex invalidHeaderChar (snd h)) hs of
                  Some h \<Rightarrow>
                    (Some (Error (''Invalid character in header content ['' @ dq @ fst h @ dq @ '']'')),
                     res1)
                | None \<Rightarrow> (None, res1\<lparr>headers := headers res1 @ hs\<rparr>))))"

text \<open>\<open>res.setHeader\<close>, called with constant names and values that Node accepts.\<close>

definition setHeader :: "string \<Rightarrow> string \<Rightarrow> http_response \<Rightarrow> http_response" where
  "setHeader name val res = res\<lparr>headers := headers res @ [(name, val)]\<rparr>"

text \<open>\<open>res.write\<close>.\<close>

definition write_body :: "string \<Rightarrow> http_response \<Rightarrow> http_response" where
  "write_body chunk res = res\<lparr>written := written res @ [chunk]\<rparr>"

definition end_response :: "http_response \<Rightarrow> http_response" where
  "end_response res = res\<lparr>ended := True\<rparr>"

definition MAX_DATA_SIZE :: nat where
  "MAX_DATA_SIZE = 10 * 1024"

definition acme_prefix :: string where
  "acme_prefix = ''/.well-known/acme-challenge/''"

text \<open>\<open>baseURL.replace(/\/+$/, '')\<close> and \<open>relativeURL.replace(/^\/+/, '')\<close> in \<open>combineURLs\<close>.\<close>

definition combineURLs :: "string \<Rightarrow> string \<Rightarrow> string" where
  "combineURLs baseURL relativeURL =
     (if relativeURL = [] then baseURL
      else rev (dropWhile (\<lambda>c. c = CHR ''/'') (rev baseURL)) @ ''/''
             @ dropWhile (\<lambda>c. c = CHR ''/'') relativeURL)"

text \<open>\<open>.replace(/:\d+$/, '')\<close>: a colon and one or more digits at the end are removed.\<close>

definition strip_port :: "string \<Rightarrow> string" where
  "strip_port h =
     (let digits = takeWhile isDigit (rev h)
      in (case dropWhile isDigit (rev h) of
            [] \<Rightarrow> h
          | c # rest \<Rightarrow> if c = CHR '':'' \<and> digits \<noteq> [] then rev rest else h))"

definition request_host :: "http_request \<Rightarrow> string" where
  "request_host req = strip_port (toLowerCase (orEmpty (req_host req)))"

text \<open>
  The callbacks that a POST to /flushcache registers on the request. They run after the
  handler has returned and the response has been ended, outside its \<open>try\<close>. The \<open>data\<close>
  callback adds up the chunk lengths and destroys the request beyond \<open>MAX_DATA_SIZE\<close>,
  after which no further event is delivered. The \<open>end\<close> callback runs when the whole
  body has arrived; \<open>validator.isFQDN\<close> throws in it on a \<open>domain\<close> that is not a string
  (a repeated field), and nothing catches that. \<open>body_events\<close> is the effect of the
  events of one request on the cache as it is when they are delivered: the error that
  is thrown and not caught, or the cache they leave.
\<close>

fun on_data :: "string list \<Rightarrow> string \<times> nat \<Rightarrow> string \<times> nat" where
  "on_data [] (body, totalSize) = (body, totalSize)"
| "on_data (chunk # rest) (body, totalSize) =
     (if totalSize + length chunk > MAX_DATA_SIZE then (body, totalSize + length chunk)
      else on_data rest (body @ chunk, totalSize + length chunk))"

definition on_end :: "world \<Rightarrow> string \<times> nat \<Rightarrow> lru \<Rightarrow> js_error + lru" where
  "on_end w bt cache =
     (case bt of (body, totalSize) \<Rightarrow>
        if totalSize \<le> MAX_DATA_SIZE
        then (case qs_domain w body of
                QUndefined \<Rightarrow> Inr cache
              | QArray ds \<Rightarrow> Inl (isFQDN_throws w)
              | QString domain \<Rightarrow>
                  if domain = [] then Inr cache
                  else if isFQDN w domain
                  then (case lru_get domain cache of
                          (Some (Entry c), cache1) \<Rightarrow> Inr (lru_set domain Sentinel cache1)
                        | (cacheExists, cache1) \<Rightarrow> Inr cache1)
                  else Inr cache)
        else Inr cache)"

definition body_events :: "world \<Rightarrow> http_request \<Rightarrow> lru \<Rightarrow> js_error + lru" where
  "body_events w req cache =
     (case on_data (req_chunks req) ([], 0) of
        (body, totalSize) \<Rightarrow>
          if req_ends req \<and> totalSize \<le> MAX_DATA_SIZE then on_end w (body, totalSize) cache
          else Inr cache)"

definition flush_events :: "world \<Rightarrow> http_request \<Rightarrow> state \<Rightarrow> js_error + state" where
  "flush_events w req s =
     (case body_events w req (resolveCache s) of
        Inl e \<Rightarrow> Inl e
      | Inr cache \<Rightarrow> Inr (s\<lparr>resolveCache := cache\<rparr>))"

text \<open>
  Lines 179 to 183 of the handler: the cache lookup and, unless
  \<open>!cache || Date.now() > cache.expire\<close> is false (\<open>fresh_entry\<close>), \<open>buildCache\<close> and
  \<open>resolveCache.set\<close>. A failure of \<open>buildCache\<close> leaves the handler before \<open>set\<close>.
\<close>

definition fresh_entry :: "world \<Rightarrow> cache_val option \<Rightarrow> Cache option" where
  "fresh_entry w cache =
     (case cache of
        None \<Rightarrow> None
      | Some Sentinel \<Rightarrow> None
      | Some (Entry c) \<Rightarrow> if now_lookup w > expire c then None else Some c)"

definition resolve :: "environ \<Rightarrow> world \<Rightarrow> state \<Rightarrow> string \<Rightarrow> (js_error + Cache) \<times> state" where
  "resolve env w s host =
     (case lru_get host (resolveCache s) of
        (cache, cache1) \<Rightarrow>
          (case fresh_entry w cache of
             Some c \<Rightarrow> (Inr c, \<lparr>policy = policy s, resolveCache = cache1\<rparr>)
           | None \<Rightarrow>
               (case buildCache env w (policy s) host of
                  (Inl e, st') \<Rightarrow> (Inl e, \<lparr>policy = st', resolveCache = cache1\<rparr>)
                | (Inr c', st') \<Rightarrow>
                    (Inr c', \<lparr>policy = st', resolveCache = lru_set host (Entry c') cache1\<rparr>))))"

text \<open>
  Lines 184 to 198: the \<open>writeHead\<close> call for a decision, with what it throws; lines 201
  to 205: the \<open>catch\<close> block (were its own \<open>writeHead\<close> to throw, the response would be
  left as it is). \<open>try_catch\<close> is a call of the \<open>try\<close> block with the statements that
  follow it, or the \<open>catch\<close> block when the call throws.
\<close>

definition respond ::
  "policy_state \<Rightarrow> http_request \<Rightarrow> Cache \<Rightarrow> http_response \<Rightarrow> js_error option \<times> http_response" where
  "respond st req cache res =
     (if blacklisted cache
      then (if truthy (blacklistRedirectUrl st)
            then writeHead (Some 302)
                   [(''Location'', orEmpty (blacklistRedirectUrl st) @ ''?d=''
                       @ encodeURIComponent (case req_host req of None \<Rightarrow> ''undefined'' | Some h \<Rightarrow> h))]
                   res
            else (case writeHead (Some 403) [] res of
                    (None, res1) \<Rightarrow> (None, write_body ''Host is forbidden'' res1)
                  | (Some e, res1) \<Rightarrow> (Some e, res1)))
      else writeHead (httpStatus cache)
             [(''Location'', if expand cache then combineURLs (url cache) (orEmpty (req_url req))
                             else url cache)]
             res)"

definition catch_error :: "js_error \<Rightarrow> http_response \<Rightarrow> http_response" where
  "catch_error e res =
     (case writeHead (if truthy (message e) then Some 400 else Some 500) [] res of
        (None, res1) \<Rightarrow>
          write_body (if truthy (message e) then orEmpty (message e) else ''Unknown error'') res1
      | (Some e1, res1) \<Rightarrow> res1)"

definition try_catch ::
  "js_error option \<times> http_response \<Rightarrow> (http_response \<Rightarrow> http_response) \<Rightarrow> http_response" where
  "try_catch r rest = (case r of (None, res) \<Rightarrow> rest res | (Some e, res) \<Rightarrow> catch_error e res)"

definition forward :: "environ \<Rightarrow> world \<Rightarrow> state \<Rightarrow> http_request \<Rightarrow> string \<Rightarrow> http_response
    \<Rightarrow> http_response \<times> state" where
  "forward env w s req host res =
     (case resolve env w s host of
        (Inl e, s') \<Rightarrow> (catch_error e res, s')
      | (Inr cache, s') \<Rightarrow> (try_catch (respond (policy s') req cache res) id, s'))"

definition cors :: "http_response \<Rightarrow> http_response" where
  "cors res =
     setHeader ''Access-Control-Max-Age'' ''86400''
       (setHeader ''Access-Control-Allow-Headers'' ''Content-Type''
         (setHeader ''Access-Control-Allow-Methods'' ''GET, OPTIONS''
           (setHeader ''Access-Control-Allow-Origin'' ''*'' res)))"

text \<open>
  The handler, up to its \<open>return\<close>: the response, the state of the process, and whether
  the callbacks of /flushcache were registered on the request. The response to a POST
  to /flushcache is written before any of the body is read, and the cache is as it was
  when the handler returns. The \<open>finally\<close> block ends the response on every path.
\<close>

definition dispatch ::
  "environ \<Rightarrow> world \<Rightarrow> state \<Rightarrow> http_request \<Rightarrow> (http_response \<times> state) \<times> bool" where
  "dispatch env w s req =
     (let url0 = orEmpty (req_url req); res = fresh_response
      in if startsWith url0 acme_prefix
         then (case challenge w of
                 Some payload \<Rightarrow>
                   ((try_catch (writeHead (Some 200) [(''content-type'', ''application/octet-stream'')] res)
                       (write_body payload), s), False)
               | None \<Rightarrow> ((try_catch (writeHead (Some 404) [] res) id, s), False))
         else
           (let host = request_host req
            in if host = []
               then ((try_catch (writeHead (Some 400) [] res) (write_body ''Host header is required''),
                      s), False)
               else if Some host = HOME_DOMAIN env
               then
                 (let res1 = cors res
                  in if req_method req = Some ''OPTIONS''
                     then ((res1\<lparr>statusCode := Some 204\<rparr>, s), False)
                     else if url0 = ''/stat''
                     then ((try_catch (writeHead (Some 200) [(''Content-Type'', ''application/json'')] res1)
                              (write_body (stat_json w)), s), False)
                     else if url0 = ''/health''
                     then ((try_catch (writeHead (Some 200) [(''Content-Type'', ''text/plain'')] res1)
                              (write_body ''ok''), s), False)
                     else if url0 = ''/flushcache''
                     then (if req_method req = Some ''POST''
                           then ((try_catch (writeHead (Some 200) [(''Content-Type'', ''text/plain'')] res1)
                                    (write_body ''Cache cleared''), s), True)
                           else ((try_catch (writeHead (Some 405) [(''Content-Type'', ''text/plain'')] res1)
                                    (write_body ''Method Not Allowed''), s), False))
                     else (forward env w s req host res1, False))
               else (forward env w s req host res, False)))"

definition listener :: "environ \<Rightarrow> world \<Rightarrow> state \<Rightarrow> http_request \<Rightarrow> http_response \<times> state" where
  "listener env w s req =
     (case fst (dispatch env w s req) of (res, s') \<Rightarrow> (end_response res, s'))"

definition registers_callbacks :: "environ \<Rightarrow> world \<Rightarrow> state \<Rightarrow> http_request \<Rightarrow> bool" where
  "registers_callbacks env w s req = snd (dispatch env w s req)"

text \<open>
  A request served from the handler to the last event of its body, with no other
  request in between: the response, and the state the events leave or the error that
  one of the callbacks throws.
\<close>

definition serve ::
  "environ \<Rightarrow> world \<Rightarrow> state \<Rightarrow> http_request \<Rightarrow> http_response \<times> (js_error + state)" where
  "serve env w s req =
     (case listener env w s req of
        (res, s') \<Rightarrow>
          (res, if registers_callbacks env w s req then flush_events w req s' else Inr s'))"

section \<open>Notions the claims are stated with\<close>

subsection \<open>Policy maps\<close>

text \<open>
  The suffixes of a host that start with a dot, the shortest first (\<open>suffixes\<close> lists the
  suffixes of a list by increasing length), and the walk along a list of keys: the first
  key whose entry is not \<open>false\<close> decides, and it is a match iff its entry is \<open>true\<close>.
\<close>

definition dot_suffixes :: "string \<Rightarrow> string list" where
  "dot_suffixes h = filter (\<lambda>k. startsWith k ''.'') (suffixes h)"

definition policy_match :: "policy_map \<Rightarrow> string list \<Rightarrow> bool" where
  "policy_match m ks =
     (case find (\<lambda>k. m k \<noteq> Some False) ks of None \<Rightarrow> False | Some k \<Rightarrow> m k = Some True)"

text \<open>
  The walk in the words of the specification: along the suffixes of the host from the
  most specific to the least specific one, past a suffix for which the map holds no
  entry or \<open>false\<close>, and stopping with a match at one for which it holds \<open>true\<close>. The
  suffixes of a host, the longest first, are \<open>rev (suffixes h)\<close>.
\<close>

fun spec_walk :: "policy_map \<Rightarrow> string list \<Rightarrow> bool" where
  "spec_walk m [] = False"
| "spec_walk m (k # ks) =
     (case m k of
        None \<Rightarrow> spec_walk m ks
      | Some False \<Rightarrow> spec_walk m ks
      | Some True \<Rightarrow> True)"

text \<open>The hosts of a configured list, as \<open>csvToMap\<close> reads them.\<close>

definition csv_hosts :: "string \<Rightarrow> string list" where
  "csv_hosts str = map (\<lambda>host. toLowerCase (trim host)) (split_on (CHR '','') str)"

text \<open>
  A map whose keys start with a dot and that has, with a key, every shorter suffix of
  the key that starts with a dot.
\<close>

definition suffix_closed :: "policy_map \<Rightarrow> bool" where
  "suffix_closed m =
     (\<forall>k. m k \<noteq> None \<longrightarrow>
        startsWith k ''.'' \<and> (\<forall>s. suffix s k \<and> startsWith s ''.'' \<longrightarrow> m s \<noteq> None))"

subsection \<open>The steps of buildCache\<close>

text \<open>
  \<open>reaches_txt\<close>: the host passed the IP, length and label checks and the CAA check
  returned \<open>null\<close>, so that \<open>buildCache\<close> goes on to the TXT lookup. The other notions name
  expressions of \<open>buildCache\<close>: the status with its default, the test for an absolute URL,
  the URL without a final star, and the message for a status that is not allowed.
\<close>

definition reaches_txt :: "world \<Rightarrow> string \<Rightarrow> bool" where
  "reaches_txt w host =
     (\<not> isIpAddress w host \<and> \<not> isExceedHostLimit host \<and> \<not> isExceedLabelLimit host
      \<and> validateCAARecords w host = Inr None)"

definition httpStatus_or_default :: "txt_record \<Rightarrow> string" where
  "httpStatus_or_default recordData =
     (case txt_httpStatus recordData of None \<Rightarrow> ''301'' | Some s \<Rightarrow> s)"

definition absolute_url :: "string \<Rightarrow> bool" where
  "absolute_url u = (startsWith u ''http://'' \<or> startsWith u ''https://'')"

definition strip_star :: "string \<Rightarrow> string" where
  "strip_star u = (if endsWith u ''*'' then butlast u else u)"

definition status_error :: "string \<Rightarrow> string \<Rightarrow> string" where
  "status_error u code =
     ''The record '' @ dq @ u @ dq @ '' wants to use the http status code '' @ code
       @ '' which is not allowed (only 301, 302, 307 and 308)''"

text \<open>
  The data of a CAA record in presentation form is \<open>flags tag value\<close>: digits, a
  blank, the tag up to the next blank, and the value. An issue record is a record of
  type 257 with the tag \<open>issue\<close>; \<open>issue_records P\<close> are those whose flags satisfy \<open>P\<close>.
  A record permits the accepted issuer when its value is \<open>letsencrypt.org\<close>, with or
  without a pair of double quotes around it and with or without
  \<open>;validationmethods=http-01\<close>. An answer is authorized when it has no \<open>Answer\<close> field,
  no issue record, or an issue record that permits the issuer.
\<close>

definition caa_fields :: "string \<Rightarrow> (string \<times> string \<times> string) option" where
  "caa_fields d =
     (let flags = takeWhile isDigit d; r1 = dropWhile isDigit d
      in if flags = [] \<or> \<not> startsWith r1 '' '' then None
         else (let tag = takeWhile (\<lambda>c. c \<noteq> CHR '' '') (drop 1 r1);
                   r2 = dropWhile (\<lambda>c. c \<noteq> CHR '' '') (drop 1 r1)
               in if \<not> startsWith r2 '' '' then None else Some (flags, tag, drop 1 r2)))"

definition issue_records :: "(string \<Rightarrow> bool) \<Rightarrow> answer list \<Rightarrow> answer list" where
  "issue_records P Answer =
     filter (\<lambda>x. rr_type x = 257
                 \<and> (case caa_fields (rr_data x) of
                      None \<Rightarrow> False
                    | Some (flags, tag, val) \<Rightarrow> tag = ''issue'' \<and> P flags))
       Answer"

definition permitted_values :: "string list" where
  "permitted_values =
     [''letsencrypt.org'', dq @ ''letsencrypt.org'' @ dq,
      ''letsencrypt.org;validationmethods=http-01'',
      dq @ ''letsencrypt.org;validationmethods=http-01'' @ dq]"

definition permits :: "answer \<Rightarrow> bool" where
  "permits x =
     (case caa_fields (rr_data x) of
        None \<Rightarrow> False
      | Some (flags, tag, val) \<Rightarrow> val \<in> set permitted_values)"

definition authorized :: "(string \<Rightarrow> bool) \<Rightarrow> answer list option \<Rightarrow> bool" where
  "authorized P Answer =
     (case Answer of
        None \<Rightarrow> True
      | Some a \<Rightarrow> issue_records P a = [] \<or> list_ex permits (issue_records P a))"

definition any_flags :: "string \<Rightarrow> bool" where
  "any_flags flags = True"

definition flags_0 :: "string \<Rightarrow> bool" where
  "flags_0 flags = (flags = ''0'')"

text \<open>The TXT records that \<open>findTxtRecord\<close> does not pass over.\<close>

definition qualifies :: "answer \<Rightarrow> bool" where
  "qualifies r = (rr_type r = 16 \<and> truthy (parseTxtRecordData (rr_data r) ''forward-domain''))"

subsection \<open>Invariants of the cache\<close>

text \<open>
  Every decision in the cache has an allowed redirect status; every key of the cache is
  in lower case.
\<close>

definition allowed_statuses :: "jsnum set" where
  "allowed_statuses = {Some 301, Some 302, Some 307, Some 308}"

definition cache_statuses_allowed :: "lru \<Rightarrow> bool" where
  "cache_statuses_allowed c =
     (\<forall>kv\<in>set c. case snd kv of Sentinel \<Rightarrow> True | Entry e \<Rightarrow> httpStatus e \<in> allowed_statuses)"

definition keys_lower :: "lru \<Rightarrow> bool" where
  "keys_lower c = (\<forall>k\<in>fst ` set c. toLowerCase k = k)"

subsection \<open>Concrete inputs\<close>

text \<open>
  Environments: a blacklist of one host, a whitelist of one host, and the service with
  the control-plane domain \<open>home.example\<close>.
\<close>

definition env_blacklist_ab :: environ where
  "env_blacklist_ab = \<lparr>WHITELIST_HOSTS = None, BLACKLIST_HOSTS = Some ''a.b.com'',
     BLACKLIST_REDIRECT = None, HOME_DOMAIN = None, CACHE_EXPIRY_SECONDS = None\<rparr>"

definition env_whitelist_ab :: environ where
  "env_whitelist_ab = \<lparr>WHITELIST_HOSTS = Some ''a.b.com'', BLACKLIST_HOSTS = None,
     BLACKLIST_REDIRECT = None, HOME_DOMAIN = None, CACHE_EXPIRY_SECONDS = None\<rparr>"

definition env_blacklist_evil :: environ where
  "env_blacklist_evil = \<lparr>WHITELIST_HOSTS = None, BLACKLIST_HOSTS = Some ''evil.example.com'',
     BLACKLIST_REDIRECT = None, HOME_DOMAIN = None, CACHE_EXPIRY_SECONDS = None\<rparr>"

definition example_env :: environ where
  "example_env = \<lparr>WHITELIST_HOSTS = None, BLACKLIST_HOSTS = Some ''evil.test'',
     BLACKLIST_REDIRECT = None, HOME_DOMAIN = Some ''home.example'',
     CACHE_EXPIRY_SECONDS = None\<rparr>"

text \<open>
  A world in which DNS answers the CAA and the TXT query for \<open>shop.example.com\<close> as
  given and has no \<open>Answer\<close> for any other name; the clock stands at 1000; the body of
  a flush request is read up to the first \<open>&\<close>.
\<close>

definition example_world ::
  "(js_error + answer list option) \<Rightarrow> (js_error + answer list option) \<Rightarrow> world" where
  "example_world caa txt =
     \<lparr>request = (\<lambda>u. if u = ''https://dns.google/resolve?name=shop.example.com&type=CAA'' then caa
                      else if u = ''https://dns.google/resolve?name=_.shop.example.com&type=TXT'' then txt
                      else Inr None),
      isIPv4 = (\<lambda>h. h = ''192.0.2.1''),
      isIPv6 = (\<lambda>h. h = ''::1''),
      isFQDN = (\<lambda>d. CHR ''.'' \<in> set d),
      isFQDN_throws = Error ''Expected a string but received a Array'',
      qs_domain = (\<lambda>b. if startsWith b ''domain=''
                        then QString (takeWhile (\<lambda>c. c \<noteq> CHR ''&'') (drop 7 b))
                        else QUndefined),
      challenge = None,
      stat_json = ''{}'',
      now_lookup = 1000,
      now_build = 1000\<rparr>"

definition caa_answer :: "string list \<Rightarrow> js_error + answer list option" where
  "caa_answer ds = Inr (Some (map (\<lambda>d. \<lparr>rr_type = 257, rr_data = d\<rparr>) ds))"

definition txt_answer :: "string \<Rightarrow> js_error + answer list option" where
  "txt_answer d = Inr (Some [\<lparr>rr_type = 16, rr_data = d\<rparr>])"

definition txt_302 :: "js_error + answer list option" where
  "txt_302 = txt_answer ''forward-domain=https://dest.example/app;http-status=302''"

definition txt_404 :: "js_error + answer list option" where
  "txt_404 = txt_answer ''forward-domain=https://dest.example/app*;http-status=404''"

definition txt_default :: "js_error + answer list option" where
  "txt_default = txt_answer ''forward-domain=https://dest.example/app''"

definition txt_star :: "js_error + answer list option" where
  "txt_star = txt_answer ''forward-domain=https://dest.example/app*''"

definition txt_control :: "js_error + answer list option" where
  "txt_control = txt_answer (''forward-domain=https://dest.example/a'' @ [CHR 0x0B] @ ''b'')"

definition txt_spf_only :: "js_error + answer list option" where
  "txt_spf_only = txt_answer ''v=spf1 -all''"

definition txt_answers :: "js_error + answer list option" where
  "txt_answers =
     Inr (Some [\<lparr>rr_type = 16, rr_data = ''v=spf1 -all''\<rparr>,
                \<lparr>rr_type = 16, rr_data = ''forward-domain=''\<rparr>,
                \<lparr>rr_type = 16,
                 rr_data = ''x=y;forward-domain=https://dest.example/?a=b;http-status=302''\<rparr>,
                \<lparr>rr_type = 16, rr_data = ''forward-domain=https://other.example''\<rparr>])"

text \<open>
  Requests (a flush request with the chunks of its body and whether the body arrives
  whole), a body of more than 10 KB, a state with a given cache, and a cached decision
  that expires at \<open>t\<close>.
\<close>

definition example_request :: "string \<Rightarrow> string \<Rightarrow> string \<Rightarrow> http_request" where
  "example_request method host path =
     \<lparr>req_url = Some path, req_method = Some method, req_host = Some host, req_chunks = [],
      req_ends = True\<rparr>"

definition flush_request :: "string \<Rightarrow> string list \<Rightarrow> bool \<Rightarrow> http_request" where
  "flush_request method chunks ends =
     \<lparr>req_url = Some ''/flushcache'', req_method = Some method, req_host = Some ''home.example'',
      req_chunks = chunks, req_ends = ends\<rparr>"

definition oversize_chunks :: "string list" where
  "oversize_chunks = [''domain=shop.example.com&pad='', replicate 10240 (CHR ''x'')]"

definition example_state :: "lru \<Rightarrow> state" where
  "example_state c = \<lparr>policy = policy_null, resolveCache = c\<rparr>"

definition old_entry :: "int \<Rightarrow> cache_val" where
  "old_entry t = Entry \<lparr>url = ''https://old.example'', expand = False, blacklisted = False,
                        expire = t, httpStatus = Some 301\<rparr>"

section \<open>The policy maps and their walk\<close>

subsection \<open>findDotPositions lists the indices of the dots\<close>

lemma indexOf_scan_None: "indexOf_scan c xs n = None \<longleftrightarrow> c \<notin> set xs"
  by (induction xs arbitrary: n) auto

lemma indexOf_scan_Some:
  "indexOf_scan c xs n = Some j \<Longrightarrow>
     \<exists>k. j = n + k \<and> k < length xs \<and> xs ! k = c \<and> (\<forall>i<k. xs ! i \<noteq> c)"
proof (induction xs arbitrary: n)
  case Nil
  then show ?case by simp
next
  case (Cons x xs)
  show ?case
  proof (cases "x = c")
    case True
    with Cons.prems show ?thesis by (intro exI [of _ 0]) simp
  next
    case False
    with Cons.prems have "indexOf_scan c xs (Suc n) = Some j" by simp
    from Cons.IH [OF this] obtain k where
      k: "j = Suc n + k" "k < length xs" "xs ! k = c" "\<forall>i<k. xs ! i \<noteq> c" by blast
    have "\<forall>i<Suc k. (x # xs) ! i \<noteq> c"
      using False k(4) by (auto simp: nth_Cons split: nat.splits)
    with k show ?thesis by (intro exI [of _ "Suc k"]) simp
  qed
qed

lemma indexOf_None:
  assumes "indexOf str c from = None"
  shows "filter (\<lambda>i. str ! i = c) [from..<length str] = []"
proof -
  from assms have notin: "c \<notin> set (drop from str)"
    by (simp add: indexOf_def indexOf_scan_None)
  have "str ! i \<noteq> c" if "from \<le> i" "i < length str" for i
  proof -
    from that have "drop from str ! (i - from) = str ! i" by simp
    moreover from that have "i - from < length (drop from str)" by simp
    ultimately have "str ! i \<in> set (drop from str)" by (metis nth_mem)
    with notin show ?thesis by auto
  qed
  then show ?thesis by (simp add: filter_empty_conv)
qed

lemma indexOf_Some:
  assumes "indexOf str c from = Some j"
  shows "filter (\<lambda>i. str ! i = c) [from..<length str]
           = j # filter (\<lambda>i. str ! i = c) [Suc j..<length str]"
proof -
  from assms obtain k where k: "j = from + k" "k < length (drop from str)"
      "drop from str ! k = c" "\<forall>i<k. drop from str ! i \<noteq> c"
    unfolding indexOf_def by (blast dest: indexOf_scan_Some)
  from k(2) have jlt: "j < length str" and fle: "from \<le> j" using k(1) by simp_all
  from k(3) k(2) have hit: "str ! j = c" using k(1) by simp
  have miss: "str ! i \<noteq> c" if "from \<le> i" "i < j" for i
  proof -
    from that k(1) have "i - from < k" by arith
    with k(4) have "drop from str ! (i - from) \<noteq> c" by blast
    moreover from that jlt have "drop from str ! (i - from) = str ! i" by simp
    ultimately show ?thesis by simp
  qed
  have split: "[from..<length str] = [from..<j] @ j # [Suc j..<length str]"
    using fle jlt by (metis le_add_diff_inverse less_imp_le_nat upt_add_eq_append upt_conv_Cons)
  have "filter (\<lambda>i. str ! i = c) [from..<j] = []"
    using miss by (simp add: filter_empty_conv)
  with split hit show ?thesis by simp
qed

lemma findDots_loop_filter:
  "findDots_loop str (indexOf str (CHR ''.'') start) acc
     = acc @ filter (\<lambda>i. str ! i = CHR ''.'') [start..<length str]"
proof (induction "length str - start" arbitrary: start acc rule: less_induct)
  case less
  show ?case
  proof (cases "indexOf str (CHR ''.'') start")
    case None
    then show ?thesis by (simp add: indexOf_None)
  next
    case (Some j)
    from indexOf_bounds [OF Some] have "length str - Suc j < length str - start" by arith
    from less [OF this]
    have "findDots_loop str (indexOf str (CHR ''.'') (Suc j)) (acc @ [j])
            = (acc @ [j]) @ filter (\<lambda>i. str ! i = CHR ''.'') [Suc j..<length str]" .
    with Some show ?thesis by (simp add: indexOf_Some)
  qed
qed

lemma findDotPositions_filter:
  "findDotPositions str = filter (\<lambda>i. str ! i = CHR ''.'') [0..<length str]"
  unfolding findDotPositions_def by (simp add: findDots_loop_filter)

lemma findDotPositions_Cons:
  "findDotPositions (x # xs)
     = (if x = CHR ''.'' then [0] else []) @ map Suc (findDotPositions xs)"
proof -
  have "[0..<length (x # xs)] = 0 # map Suc [0..<length xs]"
    by (simp add: upt_conv_Cons map_Suc_upt del: upt_Suc)
  then show ?thesis
    by (simp add: findDotPositions_filter filter_map comp_def del: upt_Suc)
qed

lemma findDotPositions_Nil: "findDotPositions [] = []"
  by (simp add: findDotPositions_filter)

lemma suffix_keys_dot_suffixes:
  "map (\<lambda>p. drop p h) (rev (findDotPositions h)) = dot_suffixes h"
proof (induction h)
  case Nil
  then show ?case by (simp add: findDotPositions_Nil dot_suffixes_def startsWith_def)
next
  case (Cons x xs)
  have "map (\<lambda>p. drop p (x # xs)) (rev (map Suc (findDotPositions xs))) = dot_suffixes xs"
    using Cons.IH by (simp add: rev_map comp_def)
  then show ?case
    by (simp add: findDotPositions_Cons dot_suffixes_def startsWith_def)
qed

subsection \<open>The loops of isHostBlacklisted walk the dot suffixes\<close>

lemma policy_match_Nil: "policy_match m [] = False"
  by (simp add: policy_match_def)

lemma policy_match_Cons:
  "policy_match m (k # ks) =
     (case m k of Some False \<Rightarrow> policy_match m ks | Some True \<Rightarrow> True | None \<Rightarrow> False)"
  by (simp add: policy_match_def split: option.splits bool.splits)

lemma blacklist_loop_match:
  "n \<le> length ps \<Longrightarrow>
     blacklist_loop m d ps n = policy_match m (map (\<lambda>p. drop p d) (rev (take n ps)))"
proof (induction n)
  case 0
  then show ?case by (simp add: policy_match_Nil)
next
  case (Suc n)
  then have "take (Suc n) ps = take n ps @ [ps ! n]"
    by (simp add: take_Suc_conv_app_nth)
  with Suc show ?case
    by (simp add: policy_match_Cons split: option.splits bool.splits)
qed

lemma whitelist_loop_match:
  "n \<le> length ps \<Longrightarrow>
     whitelist_loop m d ps n = (\<not> policy_match m (map (\<lambda>p. drop p d) (rev (take n ps))))"
proof (induction n)
  case 0
  then show ?case by (simp add: policy_match_Nil)
next
  case (Suc n)
  then have "take (Suc n) ps = take n ps @ [ps ! n]"
    by (simp add: take_Suc_conv_app_nth)
  with Suc show ?case
    by (simp add: policy_match_Cons split: option.splits bool.splits)
qed

subsection \<open>What csvToMap records\<close>

lemma csv_labels_apply:
  "csv_labels host ps n acc k =
     (if \<exists>i<n. drop (ps ! i) host = k then Some (drop (ps ! 0) host = k) else acc k)"
proof (induction n arbitrary: acc)
  case 0
  then show ?case by simp
next
  case (Suc n)
  let ?acc' = "acc(drop (ps ! n) host \<mapsto> (n = 0))"
  have step: "csv_labels host ps (Suc n) acc k =
      (if \<exists>i<n. drop (ps ! i) host = k then Some (drop (ps ! 0) host = k) else ?acc' k)"
    by (simp only: csv_labels.simps Suc.IH)
  show ?case
  proof (cases "\<exists>i<n. drop (ps ! i) host = k")
    case True
    then have ex: "\<exists>i<Suc n. drop (ps ! i) host = k" using less_Suc_eq by blast
    from True have "csv_labels host ps (Suc n) acc k = Some (drop (ps ! 0) host = k)"
      unfolding step by (simp only: if_True)
    then show ?thesis using ex by (simp only: if_True)
  next
    case False
    then have e: "csv_labels host ps (Suc n) acc k = ?acc' k"
      unfolding step by (simp only: if_False)
    show ?thesis
    proof (cases "drop (ps ! n) host = k")
      case hit: True
      have "(drop (ps ! 0) host = k) = (n = 0)"
      proof (cases n)
        case 0
        with hit show ?thesis by simp
      next
        case (Suc n')
        with False show ?thesis by auto
      qed
      moreover from hit have ex: "\<exists>i<Suc n. drop (ps ! i) host = k" by blast
      moreover from hit have "?acc' k = Some (n = 0)" by simp
      ultimately have "csv_labels host ps (Suc n) acc k = Some (drop (ps ! 0) host = k)"
        unfolding e by simp
      then show ?thesis using ex by (simp only: if_True)
    next
      case miss: False
      with False have nex: "\<not> (\<exists>i<Suc n. drop (ps ! i) host = k)"
        using less_Suc_eq by auto
      from miss have "?acc' k = acc k" by simp
      then have "csv_labels host ps (Suc n) acc k = acc k" unfolding e .
      then show ?thesis using nex by (simp only: if_False)
    qed
  qed
qed

lemma dot_suffixes_nth:
  "set (dot_suffixes h) = {k. \<exists>i<length (findDotPositions h). drop (findDotPositions h ! i) h = k}"
proof -
  have "set (dot_suffixes h) = (\<lambda>p. drop p h) ` set (findDotPositions h)"
    by (simp add: suffix_keys_dot_suffixes [symmetric])
  also have "\<dots> = {k. \<exists>i<length (findDotPositions h). drop (findDotPositions h ! i) h = k}"
    by (auto simp: set_conv_nth)
  finally show ?thesis .
qed

lemma dot_suffixes_last:
  assumes "k \<in> set (dot_suffixes h)"
  shows "last (dot_suffixes h) = drop (findDotPositions h ! 0) h"
proof -
  from assms have ne: "findDotPositions h \<noteq> []"
    by (auto simp: suffix_keys_dot_suffixes [symmetric])
  then have "last (map (\<lambda>p. drop p h) (rev (findDotPositions h))) = drop (hd (findDotPositions h)) h"
    by (simp add: last_map last_rev)
  with ne show ?thesis by (simp add: suffix_keys_dot_suffixes hd_conv_nth)
qed

lemma csv_host_apply:
  "csv_host acc host0 k =
     (let host = toLowerCase (trim host0)
      in if k \<in> set (dot_suffixes host) then Some (k = last (dot_suffixes host)) else acc k)"
proof (cases "k \<in> set (dot_suffixes (toLowerCase (trim host0)))")
  case True
  from dot_suffixes_last [OF True] True show ?thesis
    by (auto simp: csv_host_def Let_def csv_labels_apply dot_suffixes_nth)
next
  case False
  then show ?thesis
    by (auto simp: csv_host_def Let_def csv_labels_apply dot_suffixes_nth)
qed

lemma foldl_csv_host_apply:
  "foldl csv_host acc hs k =
     (case find (\<lambda>h. k \<in> set (dot_suffixes h)) (rev (map (\<lambda>host. toLowerCase (trim host)) hs)) of
        None \<Rightarrow> acc k
      | Some h \<Rightarrow> Some (k = last (dot_suffixes h)))"
proof (induction hs rule: rev_induct)
  case Nil
  then show ?case by simp
next
  case (snoc x xs)
  then show ?case by (simp add: csv_host_apply Let_def)
qed

lemma csvToMap_apply:
  "csvToMap str k =
     (case find (\<lambda>h. k \<in> set (dot_suffixes h)) (rev (csv_hosts str)) of
        None \<Rightarrow> None
      | Some h \<Rightarrow> Some (k = last (dot_suffixes h)))"
  unfolding csvToMap_def csv_hosts_def by (simp add: foldl_csv_host_apply)

subsection \<open>The maps of csvToMap have every shorter suffix of a key\<close>

lemma set_dot_suffixes: "set (dot_suffixes h) = {k. suffix k h \<and> startsWith k ''.''}"
  by (auto simp: dot_suffixes_def in_set_suffixes)

lemma dot_suffixes_Cons:
  "dot_suffixes (x # xs) = dot_suffixes xs @ (if x = CHR ''.'' then [x # xs] else [])"
  by (simp add: dot_suffixes_def startsWith_def)

lemma dot_suffixes_Nil: "dot_suffixes [] = []"
  by (simp add: dot_suffixes_def startsWith_def)

lemma csvToMap_dom:
  "csvToMap str k \<noteq> None \<longleftrightarrow> (\<exists>h\<in>set (csv_hosts str). k \<in> set (dot_suffixes h))"
proof -
  have "csvToMap str k = None \<longleftrightarrow>
          find (\<lambda>h. k \<in> set (dot_suffixes h)) (rev (csv_hosts str)) = None"
    by (simp add: csvToMap_apply split: option.splits)
  then show ?thesis by (auto simp: find_None_iff)
qed

lemma csvToMap_closed: "suffix_closed (csvToMap str)"
  unfolding suffix_closed_def
proof (intro allI impI)
  fix k assume "csvToMap str k \<noteq> None"
  then have "\<exists>h\<in>set (csv_hosts str). k \<in> set (dot_suffixes h)"
    by (simp only: csvToMap_dom)
  then obtain h where h: "h \<in> set (csv_hosts str)" "k \<in> set (dot_suffixes h)"
    by blast
  from h(2) have k: "suffix k h" "startsWith k ''.''" by (simp_all add: set_dot_suffixes)
  have "csvToMap str s \<noteq> None" if "suffix s k \<and> startsWith s ''.''" for s
  proof -
    from that k(1) have "suffix s h" by (blast intro: suffix_order.trans)
    with that have "s \<in> set (dot_suffixes h)" by (simp add: set_dot_suffixes)
    with h(1) show ?thesis unfolding csvToMap_dom by blast
  qed
  with k(2) show "startsWith k ''.'' \<and> (\<forall>s. suffix s k \<and> startsWith s ''.'' \<longrightarrow> csvToMap str s \<noteq> None)"
    by blast
qed

lemma policy_match_append:
  "policy_match m (as @ bs) =
     (if \<forall>a\<in>set as. m a = Some False then policy_match m bs else policy_match m as)"
  by (induction as) (auto simp: policy_match_Cons split: option.splits bool.splits)

lemma policy_match_imp: "policy_match m ks \<Longrightarrow> \<exists>k\<in>set ks. m k = Some True"
  by (induction ks) (auto simp: policy_match_Nil policy_match_Cons split: option.splits bool.splits)

lemma policy_match_closed:
  assumes "suffix_closed m"
  shows "policy_match m (dot_suffixes h) = (\<exists>k\<in>set (dot_suffixes h). m k = Some True)"
proof (induction h)
  case Nil
  then show ?case by (simp add: dot_suffixes_Nil policy_match_Nil)
next
  case (Cons x xs)
  show ?case
  proof (cases "\<exists>k\<in>set (dot_suffixes xs). m k = Some True")
    case True
    with Cons have "policy_match m (dot_suffixes xs)" by simp
    moreover from True have "\<not> (\<forall>a\<in>set (dot_suffixes xs). m a = Some False)" by force
    ultimately have "policy_match m (dot_suffixes (x # xs))"
      unfolding dot_suffixes_Cons policy_match_append by (simp only: if_False)
    with True show ?thesis by (auto simp: dot_suffixes_Cons)
  next
    case False
    show ?thesis
    proof (cases "x = CHR ''.'' \<and> m (x # xs) = Some True")
      case hit: True
      have "m a = Some False" if "a \<in> set (dot_suffixes xs)" for a
      proof -
        from that have "suffix a (x # xs)" "startsWith a ''.''"
          by (simp_all add: set_dot_suffixes suffix_Cons)
        with assms hit have "m a \<noteq> None" unfolding suffix_closed_def by auto
        moreover from False that have "m a \<noteq> Some True" by blast
        ultimately show ?thesis by (cases "m a") auto
      qed
      with hit have "policy_match m (dot_suffixes (x # xs))"
        by (auto simp: dot_suffixes_Cons policy_match_append policy_match_Cons policy_match_Nil)
      with hit show ?thesis by (auto simp: dot_suffixes_Cons)
    next
      case miss: False
      with False have "\<not> (\<exists>k\<in>set (dot_suffixes (x # xs)). m k = Some True)"
        by (auto simp: dot_suffixes_Cons split: if_splits)
      with policy_match_imp [of m "dot_suffixes (x # xs)"] show ?thesis by blast
    qed
  qed
qed

lemma policy_match_suffix:
  assumes "suffix_closed m"
  shows "policy_match m (dot_suffixes h) = (\<exists>s. suffix s h \<and> m s = Some True)"
proof -
  have "(\<exists>k\<in>set (dot_suffixes h). m k = Some True) = (\<exists>s. suffix s h \<and> m s = Some True)"
    using assms unfolding suffix_closed_def set_dot_suffixes by auto
  with policy_match_closed [OF assms] show ?thesis by simp
qed

lemma isHostBlacklisted_match:
  "isHostBlacklisted env st h =
     (let (bl, st') = policy_init env st
      in (case whitelistMap st' of
            None \<Rightarrow> (policy_match bl (dot_suffixes h), st')
          | Some wl \<Rightarrow> (\<not> policy_match wl (dot_suffixes h), st')))"
  by (simp add: isHostBlacklisted_def Let_def blacklist_loop_match whitelist_loop_match
      suffix_keys_dot_suffixes split: prod.splits option.splits)

lemma suffixes_length_sorted: "sorted_wrt (\<lambda>a b. length a < length b) (suffixes h)"
proof (induction h)
  case Nil
  then show ?case by simp
next
  case (Cons x xs)
  have "length a < length (x # xs)" if "a \<in> set (suffixes xs)" for a
    using that by (auto simp: in_set_suffixes dest: suffix_length_le)
  with Cons show ?case by (simp add: sorted_wrt_append)
qed

lemma dot_suffixes_sorted: "sorted_wrt (\<lambda>a b. length a < length b) (dot_suffixes h)"
  unfolding dot_suffixes_def by (rule sorted_wrt_filter) (rule suffixes_length_sorted)

lemma dot_suffixes_last_dropWhile:
  "dot_suffixes h \<noteq> [] \<Longrightarrow> last (dot_suffixes h) = dropWhile (\<lambda>c. c \<noteq> CHR ''.'') h"
  by (induction h) (auto simp: dot_suffixes_Nil dot_suffixes_Cons)

lemma policy_init_null:
  "policy_init env policy_null =
     (csvToMap (orEmpty (BLACKLIST_HOSTS env)),
      \<lparr>blacklistMap = Some (csvToMap (orEmpty (BLACKLIST_HOSTS env))),
       whitelistMap = (if truthy (WHITELIST_HOSTS env)
                       then Some (csvToMap (orEmpty (WHITELIST_HOSTS env))) else None),
       blacklistRedirectUrl = orNull (BLACKLIST_REDIRECT env)\<rparr>)"
  by (simp add: policy_init_def policy_null_def Let_def)

lemma policy_init_idem:
  "policy_init env (snd (policy_init env policy_null))
     = (fst (policy_init env policy_null), snd (policy_init env policy_null))"
  by (simp add: policy_init_null) (simp add: policy_init_def)

lemma find_dot_suffixes_value:
  "find (\<lambda>h. k \<in> set (dot_suffixes h)) hs = Some h \<Longrightarrow>
     (k = last (dot_suffixes h)) = (k = dropWhile (\<lambda>c. c \<noteq> CHR ''.'') h)"
proof -
  assume "find (\<lambda>h. k \<in> set (dot_suffixes h)) hs = Some h"
  then have "k \<in> set (dot_suffixes h)" by (auto simp: find_Some_iff)
  then have "dot_suffixes h \<noteq> []" by auto
  then show ?thesis by (simp add: dot_suffixes_last_dropWhile)
qed

text \<open>
  What \<open>csvToMap\<close> records: the entry of a suffix is decided by the last host of the list
  that has it among its dot suffixes, and it is \<open>true\<close> iff the suffix is that host
  without its first label.
\<close>

lemma csvToMap_entries:
  "csvToMap str k =
     (case find (\<lambda>h. k \<in> set (dot_suffixes h))
             (rev (map (\<lambda>host. toLowerCase (trim host)) (split_on (CHR '','') str))) of
        None \<Rightarrow> None
      | Some h \<Rightarrow> Some (k = dropWhile (\<lambda>c. c \<noteq> CHR ''.'') h))
   \<and> set (dot_suffixes h) = {k. suffix k h \<and> startsWith k ''.''}"
proof
  show "csvToMap str k =
     (case find (\<lambda>h. k \<in> set (dot_suffixes h))
             (rev (map (\<lambda>host. toLowerCase (trim host)) (split_on (CHR '','') str))) of
        None \<Rightarrow> None
      | Some h \<Rightarrow> Some (k = dropWhile (\<lambda>c. c \<noteq> CHR ''.'') h))"
    unfolding csvToMap_apply csv_hosts_def
    by (auto split: option.splits dest: find_dot_suffixes_value)
  show "set (dot_suffixes h) = {k. suffix k h \<and> startsWith k ''.''}"
    by (rule set_dot_suffixes)
qed

lemma spec_walk_ex: "spec_walk m ks = (\<exists>k\<in>set ks. m k = Some True)"
  by (induction ks) (auto split: option.splits bool.splits)

lemma suffixes_rev_sorted: "sorted_wrt (\<lambda>a b. length a > length b) (rev (suffixes h))"
  using suffixes_length_sorted [of h] by (simp add: sorted_wrt_rev)

section \<open>The validation pipeline and the cache\<close>

subsection \<open>buildCache\<close>

lemma buildCache_reached:
  assumes "reaches_txt w host" "findTxtRecord w host = Inr (Some recordData)"
    "absolute_url (txt_url recordData)"
  shows "buildCache env w st host =
     (if \<not> isHttpCodeAllowed (httpStatus_or_default recordData)
      then (Inl (Error (status_error (strip_star (txt_url recordData))
                          (httpStatus_or_default recordData))), st)
      else (Inr \<lparr>url = strip_star (txt_url recordData),
                 expand = endsWith (txt_url recordData) ''*'',
                 blacklisted = fst (isHostBlacklisted env st host),
                 expire = now_build w + cacheExpirySeconds env * 1000,
                 httpStatus = parseInt (httpStatus_or_default recordData)\<rparr>,
            snd (isHostBlacklisted env st host)))"
  using assms
  by (simp add: buildCache_def reaches_txt_def absolute_url_def httpStatus_or_default_def
      status_error_def strip_star_def Let_def split: prod.splits)

lemma buildCache_Inr:
  assumes "buildCache env w st host = (Inr c, st')"
  shows "\<exists>recordData. reaches_txt w host \<and> findTxtRecord w host = Inr (Some recordData)
           \<and> absolute_url (txt_url recordData)
           \<and> isHttpCodeAllowed (httpStatus_or_default recordData)"
  using assms
  by (auto simp: buildCache_def reaches_txt_def absolute_url_def httpStatus_or_default_def
      Let_def split: if_splits sum.splits option.splits prod.splits)

lemma buildCache_Inl_state:
  "buildCache env w st host = (Inl e, st') \<Longrightarrow> st' = st"
  by (simp add: buildCache_def Let_def split: if_splits sum.splits option.splits prod.splits)

lemma parseInt_allowed:
  assumes "isHttpCodeAllowed code"
  shows "parseInt code \<in> allowed_statuses"
proof -
  have "parseInt ''301'' = Some 301" "parseInt ''302'' = Some 302"
       "parseInt ''307'' = Some 307" "parseInt ''308'' = Some 308"
    by code_simp+
  with assms show ?thesis
    unfolding isHttpCodeAllowed_def allowed_statuses_def by auto
qed

lemma buildCache_status:
  assumes "buildCache env w st host = (Inr c, st')"
  shows "httpStatus c \<in> allowed_statuses"
proof -
  from buildCache_Inr [OF assms] obtain recordData where
    r: "reaches_txt w host" "findTxtRecord w host = Inr (Some recordData)"
       "absolute_url (txt_url recordData)"
       "isHttpCodeAllowed (httpStatus_or_default recordData)"
    by blast
  from buildCache_reached [OF r(1-3), of env st] r(4) assms
  have "httpStatus c = parseInt (httpStatus_or_default recordData)" by auto
  with parseInt_allowed [OF r(4)] show ?thesis by simp
qed

subsection \<open>The cache and the lookup\<close>

lemma lru_get_fst: "fst (lru_get k c) = map_of c k"
  by (simp add: lru_get_def split: option.splits)

lemma map_of_filter_front:
  "map_of c k = Some v \<Longrightarrow> (map_of (filter (\<lambda>kv. fst kv \<noteq> k) c))(k \<mapsto> v) = map_of c"
proof (rule ext)
  fix x assume v: "map_of c k = Some v"
  have "map_of (filter (\<lambda>kv. fst kv \<noteq> k) c) x = (if x = k then None else map_of c x)"
    by (induction c) auto
  with v show "((map_of (filter (\<lambda>kv. fst kv \<noteq> k) c))(k \<mapsto> v)) x = map_of c x" by simp
qed

lemma lru_get_map_of: "map_of (snd (lru_get k c)) = map_of c"
  by (simp add: lru_get_def map_of_filter_front split: option.splits)

lemma lru_get_set: "set (snd (lru_get k c)) \<subseteq> set c"
  by (auto simp: lru_get_def split: option.splits dest: map_of_SomeD)

lemma lru_get_keys: "fst ` set (snd (lru_get k c)) \<subseteq> fst ` set c"
  using lru_get_set [of k c] by blast

lemma lru_get_absent: "map_of c k = None \<Longrightarrow> lru_get k c = (None, c)"
  by (simp add: lru_get_def)

lemma lru_set_set: "set (lru_set k v c) \<subseteq> insert (k, v) (set c)"
proof -
  have "set (lru_set k v c) \<subseteq> set ((k, v) # filter (\<lambda>kv. fst kv \<noteq> k) c)"
    unfolding lru_set_def by (rule set_take_subset)
  then show ?thesis by auto
qed

lemma lru_set_lookup: "map_of (lru_set k v c) k = Some v"
proof -
  have "lru_max = Suc (lru_max - 1)" by (simp add: lru_max_def)
  then have "lru_set k v c = (k, v) # take (lru_max - 1) (filter (\<lambda>kv. fst kv \<noteq> k) c)"
    unfolding lru_set_def by (metis take_Suc_Cons)
  then show ?thesis by simp
qed

lemma cache_statuses_allowed_get:
  "cache_statuses_allowed c \<Longrightarrow> cache_statuses_allowed (snd (lru_get k c))"
  unfolding cache_statuses_allowed_def using lru_get_set [of k c] by blast

lemma cache_statuses_allowed_set:
  "cache_statuses_allowed c \<Longrightarrow>
     (case v of Sentinel \<Rightarrow> True | Entry e \<Rightarrow> httpStatus e \<in> allowed_statuses) \<Longrightarrow>
     cache_statuses_allowed (lru_set k v c)"
  unfolding cache_statuses_allowed_def using lru_set_set [of k v c] by fastforce

lemma cache_statuses_allowed_lookup:
  "cache_statuses_allowed c \<Longrightarrow> map_of c k = Some (Entry e) \<Longrightarrow> httpStatus e \<in> allowed_statuses"
  unfolding cache_statuses_allowed_def by (fastforce dest: map_of_SomeD)

lemma fresh_entry_Some:
  "fresh_entry w v = Some c \<longleftrightarrow> v = Some (Entry c) \<and> \<not> now_lookup w > expire c"
  by (auto simp: fresh_entry_def split: option.splits cache_val.splits if_splits)

lemma resolve_fresh:
  assumes "fresh_entry w (map_of (resolveCache s) host) = Some c"
  shows "resolve env w s host
       = (Inr c, \<lparr>policy = policy s, resolveCache = snd (lru_get host (resolveCache s))\<rparr>)"
proof -
  obtain a b where g: "lru_get host (resolveCache s) = (a, b)"
    by (cases "lru_get host (resolveCache s)")
  with lru_get_fst [of host "resolveCache s"] have "a = map_of (resolveCache s) host" by simp
  with assms g show ?thesis by (simp add: resolve_def)
qed

lemma resolve_build:
  assumes "fresh_entry w (map_of (resolveCache s) host) = None"
  shows "resolve env w s host
       = (case buildCache env w (policy s) host of
            (Inl e, st') \<Rightarrow>
              (Inl e, \<lparr>policy = st', resolveCache = snd (lru_get host (resolveCache s))\<rparr>)
          | (Inr c', st') \<Rightarrow>
              (Inr c', \<lparr>policy = st',
                        resolveCache = lru_set host (Entry c') (snd (lru_get host (resolveCache s)))\<rparr>))"
proof -
  obtain a b where g: "lru_get host (resolveCache s) = (a, b)"
    by (cases "lru_get host (resolveCache s)")
  with lru_get_fst [of host "resolveCache s"] have "a = map_of (resolveCache s) host" by simp
  with assms g show ?thesis by (simp add: resolve_def split: prod.splits sum.splits)
qed

lemma resolve_status:
  assumes "cache_statuses_allowed (resolveCache s)" "resolve env w s host = (r, s')"
  shows "cache_statuses_allowed (resolveCache s')
         \<and> (\<forall>c. r = Inr c \<longrightarrow> httpStatus c \<in> allowed_statuses)"
proof (cases "fresh_entry w (map_of (resolveCache s) host)")
  case (Some c)
  then have "map_of (resolveCache s) host = Some (Entry c)" by (simp add: fresh_entry_Some)
  with assms(1) have "httpStatus c \<in> allowed_statuses" by (rule cache_statuses_allowed_lookup)
  with assms resolve_fresh [OF Some, of env] show ?thesis
    by (auto intro: cache_statuses_allowed_get)
next
  case None
  obtain b st' where b: "buildCache env w (policy s) host = (b, st')" by (cases "buildCache env w (policy s) host")
  show ?thesis
  proof (cases b)
    case (Inl e)
    with assms resolve_build [OF None, of env] b show ?thesis
      by (auto intro: cache_statuses_allowed_get)
  next
    case (Inr c')
    with b have ok: "httpStatus c' \<in> allowed_statuses" by (auto dest: buildCache_status)
    from assms(1) have "cache_statuses_allowed (snd (lru_get host (resolveCache s)))"
      by (rule cache_statuses_allowed_get)
    then have "cache_statuses_allowed
        (lru_set host (Entry c') (snd (lru_get host (resolveCache s))))"
      by (rule cache_statuses_allowed_set) (simp add: ok)
    with ok Inr assms resolve_build [OF None, of env] b show ?thesis by auto
  qed
qed

lemma on_end_statuses:
  assumes c: "cache_statuses_allowed c" and r: "on_end w bt c = Inr c'"
  shows "cache_statuses_allowed c'"
proof -
  have s: "cache_statuses_allowed (lru_set d Sentinel (snd (lru_get d c)))" for d
    by (rule cache_statuses_allowed_set [OF cache_statuses_allowed_get [OF c]]) simp
  have g: "cache_statuses_allowed (snd (lru_get d c))" for d
    by (rule cache_statuses_allowed_get [OF c])
  obtain body totalSize where bt: "bt = (body, totalSize)" by (cases bt)
  show ?thesis
  proof (cases "qs_domain w body")
    case QUndefined
    with r c bt show ?thesis by (simp add: on_end_def split: if_splits)
  next
    case (QArray ds)
    with r c bt show ?thesis by (simp add: on_end_def split: if_splits)
  next
    case (QString d)
    obtain v c1 where l: "lru_get d c = (v, c1)" by (cases "lru_get d c")
    with s [of d] g [of d] have "cache_statuses_allowed (lru_set d Sentinel c1)"
      "cache_statuses_allowed c1" by simp_all
    with r c bt QString l show ?thesis
      by (auto simp: on_end_def split: if_splits option.splits cache_val.splits)
  qed
qed

lemma body_events_statuses:
  "cache_statuses_allowed c \<Longrightarrow> body_events w req c = Inr c' \<Longrightarrow> cache_statuses_allowed c'"
  by (auto simp: body_events_def split: prod.splits if_splits dest: on_end_statuses)

lemma toInt32_id: "- 2147483648 \<le> i \<Longrightarrow> i < 2147483648 \<Longrightarrow> toInt32 (Some i) = i"
  by (simp add: toInt32_def)

lemma writeHead_valid:
  assumes "100 \<le> i" "i \<le> 999" "\<forall>h\<in>set hs. \<not> list_ex invalidHeaderChar (snd h)"
  shows "writeHead (Some i) hs res
           = (None, res\<lparr>statusCode := Some i, headers := headers res @ hs\<rparr>)"
proof -
  from assms(1,2) have t: "toInt32 (Some i) = i" by (simp add: toInt32_id)
  from assms(3) have "find (\<lambda>h. list_ex invalidHeaderChar (snd h)) hs = None"
    by (auto simp: find_None_iff)
  with t assms(1,2) show ?thesis by (simp add: writeHead_def)
qed

lemma writeHead_invalid_char:
  assumes "100 \<le> i" "i \<le> 999" "list_ex invalidHeaderChar v"
  shows "writeHead (Some i) [(n, v)] res
           = (Some (Error (''Invalid character in header content ['' @ dq @ n @ dq @ '']'')),
              res\<lparr>statusCode := Some i\<rparr>)"
proof -
  from assms(1,2) have t: "toInt32 (Some i) = i" by (simp add: toInt32_id)
  with assms show ?thesis by (simp add: writeHead_def)
qed

lemma catch_error_eq:
  "catch_error e res =
     (if truthy (message e)
      then write_body (orEmpty (message e)) (res\<lparr>statusCode := Some 400\<rparr>)
      else write_body ''Unknown error'' (res\<lparr>statusCode := Some 500\<rparr>))"
  by (simp add: catch_error_def writeHead_valid)

lemma try_catch_None: "try_catch (None, res) rest = rest res"
  by (simp add: try_catch_def)

lemma try_catch_Some: "try_catch (Some e, res) rest = catch_error e res"
  by (simp add: try_catch_def)

lemma try_catch_valid:
  assumes "100 \<le> i" "i \<le> 999" "\<forall>h\<in>set hs. \<not> list_ex invalidHeaderChar (snd h)"
  shows "try_catch (writeHead (Some i) hs res) rest
           = rest (res\<lparr>statusCode := Some i, headers := headers res @ hs\<rparr>)"
  unfolding writeHead_valid [OF assms] by (rule try_catch_None)

lemma forward_state: "snd (forward env w s req host res) = snd (resolve env w s host)"
  by (cases "resolve env w s host") (simp add: forward_def split: sum.splits)

lemma dispatch_state_cases:
  "snd (fst (dispatch env w s req)) = s
   \<or> snd (fst (dispatch env w s req)) = snd (resolve env w s (request_host req))"
  unfolding dispatch_def Let_def by (simp add: forward_state split: option.splits)

lemma listener_state: "snd (listener env w s req) = snd (fst (dispatch env w s req))"
  by (simp add: listener_def split: prod.splits)

lemma listener_statuses:
  assumes "cache_statuses_allowed (resolveCache s)"
  shows "cache_statuses_allowed (resolveCache (snd (listener env w s req)))"
proof -
  have "cache_statuses_allowed (resolveCache (snd (resolve env w s (request_host req))))"
    using resolve_status [OF assms, of env w "request_host req"]
    by (cases "resolve env w s (request_host req)") auto
  then show ?thesis
    using assms dispatch_state_cases [of env w s req] unfolding listener_state by auto
qed

lemma allowed_statuses_range:
  "code \<in> allowed_statuses \<Longrightarrow> \<exists>i. code = Some i \<and> 100 \<le> i \<and> i \<le> 999"
  by (auto simp: allowed_statuses_def)

lemma respond_status:
  assumes "\<not> blacklisted c" "httpStatus c \<in> allowed_statuses"
  shows "statusCode (snd (respond st req c res)) = httpStatus c"
proof -
  from allowed_statuses_range [OF assms(2)] obtain i where
    i: "httpStatus c = Some i" "100 \<le> i" "i \<le> 999" by blast
  then have "toInt32 (Some i) = i" by (simp add: toInt32_id)
  with assms(1) i show ?thesis
    by (simp add: respond_def writeHead_def Let_def split: option.splits)
qed

subsection \<open>combineURLs and the response\<close>

lemma takeWhile_replicate: "takeWhile (\<lambda>c. c = x) xs = replicate (length (takeWhile (\<lambda>c. c = x) xs)) x"
  by (induction xs) auto

lemma dropWhile_not_head: "\<not> startsWith (dropWhile (\<lambda>c. c = CHR ''/'') xs) ''/''"
  by (induction xs) (auto simp: startsWith_def)

lemma endsWith_single: "endsWith xs [x] \<longleftrightarrow> xs \<noteq> [] \<and> last xs = x"
proof (cases xs rule: rev_cases)
  case Nil
  then show ?thesis by (simp add: endsWith_def)
next
  case (snoc ys y)
  then show ?thesis by (simp add: endsWith_def)
qed

lemma rev_dropWhile_not_last:
  "\<not> endsWith (rev (dropWhile (\<lambda>c. c = CHR ''/'') (rev xs))) ''/''"
proof -
  let ?d = "dropWhile (\<lambda>c. c = CHR ''/'') (rev xs)"
  have "?d \<noteq> [] \<Longrightarrow> hd ?d \<noteq> CHR ''/''" by (metis (full_types) hd_dropWhile)
  then show ?thesis by (auto simp: endsWith_single last_rev)
qed

lemma combineURLs_join:
  assumes "relativeURL \<noteq> []"
  shows "\<exists>b r m n. baseURL = b @ replicate m (CHR ''/'')
           \<and> relativeURL = replicate n (CHR ''/'') @ r
           \<and> \<not> endsWith b ''/'' \<and> \<not> startsWith r ''/''
           \<and> combineURLs baseURL relativeURL = b @ ''/'' @ r"
proof -
  let ?P = "\<lambda>c. c = CHR ''/''"
  let ?b = "rev (dropWhile ?P (rev baseURL))"
  let ?r = "dropWhile ?P relativeURL"
  let ?m = "length (takeWhile ?P (rev baseURL))"
  let ?n = "length (takeWhile ?P relativeURL)"
  have "rev baseURL = takeWhile ?P (rev baseURL) @ dropWhile ?P (rev baseURL)" by simp
  then have "rev baseURL = replicate ?m (CHR ''/'') @ dropWhile ?P (rev baseURL)"
    using takeWhile_replicate [of "CHR ''/''" "rev baseURL"] by simp
  then have "rev (rev baseURL) = rev (replicate ?m (CHR ''/'') @ dropWhile ?P (rev baseURL))"
    by (rule arg_cong)
  then have b: "baseURL = ?b @ replicate ?m (CHR ''/'')" by simp
  have "relativeURL = takeWhile ?P relativeURL @ ?r" by simp
  then have r: "relativeURL = replicate ?n (CHR ''/'') @ ?r"
    using takeWhile_replicate [of "CHR ''/''" relativeURL] by simp
  have c: "combineURLs baseURL relativeURL = ?b @ ''/'' @ ?r"
    using assms by (simp add: combineURLs_def)
  from b r c rev_dropWhile_not_last [of baseURL] dropWhile_not_head [of relativeURL]
  show ?thesis by blast
qed

lemma endsWith_butlast:
  "endsWith u ''*'' \<Longrightarrow> u = butlast u @ ''*''"
  by (auto simp: endsWith_single) (metis append_butlast_last_id)

lemma respond_location:
  assumes "\<not> blacklisted c" "httpStatus c = Some i" "100 \<le> i" "i \<le> 999"
  shows "respond st req c res =
     (let loc = (if expand c then combineURLs (url c) (orEmpty (req_url req)) else url c)
      in if list_ex invalidHeaderChar loc
         then (Some (Error (''Invalid character in header content ['' @ dq @ ''Location'' @ dq @ '']'')),
               res\<lparr>statusCode := Some i\<rparr>)
         else (None, res\<lparr>statusCode := Some i, headers := headers res @ [(''Location'', loc)]\<rparr>))"
proof -
  let ?loc = "if expand c then combineURLs (url c) (orEmpty (req_url req)) else url c"
  have r: "respond st req c res = writeHead (Some i) [(''Location'', ?loc)] res"
    using assms(1,2) by (simp add: respond_def)
  show ?thesis
  proof (cases "list_ex invalidHeaderChar ?loc")
    case True
    from writeHead_invalid_char [OF assms(3,4) True, of "''Location''" res] True r
    show ?thesis by (simp add: Let_def)
  next
    case False
    then have "\<forall>h\<in>set [(''Location'', ?loc)]. \<not> list_ex invalidHeaderChar (snd h)" by simp
    from writeHead_valid [OF assms(3,4) this, of res] False r
    show ?thesis by (simp add: Let_def)
  qed
qed

lemma forward_Inr:
  "resolve env w s host = (Inr c, s') \<Longrightarrow>
     forward env w s req host res = (try_catch (respond (policy s') req c res) id, s')"
  by (simp add: forward_def)

lemma forward_Inl:
  "resolve env w s host = (Inl e, s') \<Longrightarrow>
     forward env w s req host res = (catch_error e res, s')"
  by (simp add: forward_def)

lemma buildCache_Inr_fields:
  assumes "fst (buildCache env w st host) = Inr c" "findTxtRecord w host = Inr (Some recordData)"
  shows "url c = strip_star (txt_url recordData) \<and> expand c = endsWith (txt_url recordData) ''*''
         \<and> httpStatus c = parseInt (httpStatus_or_default recordData)
         \<and> absolute_url (txt_url recordData)"
proof -
  from assms(1) have "buildCache env w st host = (Inr c, snd (buildCache env w st host))"
    by (metis prod.collapse)
  from buildCache_Inr [OF this] assms(2) have
    r: "reaches_txt w host" "absolute_url (txt_url recordData)"
       "isHttpCodeAllowed (httpStatus_or_default recordData)"
    by auto
  from buildCache_reached [OF r(1) assms(2) r(2), of env st] r(3) assms(1) r(2)
  show ?thesis by auto
qed

subsection \<open>CAA and TXT records\<close>

lemma startsWith_append: "startsWith s p \<Longrightarrow> s = p @ drop (length p) s"
  unfolding startsWith_def by (metis append_take_drop_id)

lemma caa_fields_0_issue: "caa_fields (''0 issue '' @ v) = Some (''0'', ''issue'', v)"
  by (simp add: caa_fields_def isDigit_def startsWith_def Let_def)

lemma caa_fields_Some:
  assumes "caa_fields d = Some (flags, tag, val)"
  shows "d = flags @ '' '' @ tag @ '' '' @ val"
proof -
  let ?P = "\<lambda>c. c \<noteq> CHR '' ''"
  define r1 where "r1 = dropWhile isDigit d"
  define r2 where "r2 = dropWhile ?P (drop 1 r1)"
  from assms have f: "flags = takeWhile isDigit d" "startsWith r1 '' ''"
    "tag = takeWhile ?P (drop 1 r1)" "startsWith r2 '' ''" "val = drop 1 r2"
    by (auto simp: caa_fields_def Let_def r1_def r2_def split: if_splits)
  have "d = flags @ r1" by (simp add: f(1) r1_def)
  moreover from startsWith_append [OF f(2)] have "r1 = '' '' @ drop 1 r1" by simp
  moreover have "drop 1 r1 = tag @ r2" by (simp add: f(3) r2_def)
  moreover from startsWith_append [OF f(4)] have "r2 = '' '' @ val" by (simp add: f(5))
  ultimately show ?thesis by (metis append_assoc)
qed

lemma caa_fields_flags_0:
  "(case caa_fields d of None \<Rightarrow> False | Some (flags, tag, val) \<Rightarrow> tag = ''issue'' \<and> flags_0 flags)
     = startsWith d ''0 issue ''"
proof (cases "startsWith d ''0 issue ''")
  case True
  from startsWith_append [OF True] obtain v where d: "d = ''0 issue '' @ v" ..
  from True show ?thesis unfolding d caa_fields_0_issue by (simp add: flags_0_def)
next
  case False
  have "startsWith d ''0 issue ''" if "caa_fields d = Some (''0'', ''issue'', val)" for val
    using caa_fields_Some [OF that] by (simp add: startsWith_def)
  with False show ?thesis by (auto simp: flags_0_def split: option.splits)
qed

lemma validateCAARecords_answer:
  assumes "request w (''https://dns.google/resolve?name='' @ encodeURIComponent host @ ''&type=CAA'')
             = Inr Answer"
  shows "validateCAARecords w host =
     (case Answer of
        None \<Rightarrow> Inr None
      | Some a \<Rightarrow> if issue_records flags_0 a = []
                     \<or> (\<exists>x\<in>set (issue_records flags_0 a). caaRegex_test (rr_data x))
                  then Inr None else Inr (Some (map rr_data (issue_records flags_0 a))))"
  using assms
  by (auto simp: validateCAARecords_def issue_records_def caa_fields_flags_0 Let_def list_ex_iff
      split: option.splits)

lemma caaRegex_test_permits:
  assumes "x \<in> set (issue_records flags_0 a)"
  shows "caaRegex_test (rr_data x) = permits x"
proof -
  from assms obtain v where f: "caa_fields (rr_data x) = Some (''0'', ''issue'', v)"
    by (auto simp: issue_records_def flags_0_def split: option.splits)
  from caa_fields_Some [OF f] have d: "rr_data x = ''0 issue '' @ v" by simp
  have "caaRegex_test (''0 issue '' @ v) = (v \<in> set permitted_values)"
    by (auto simp: caaRegex_test_def permitted_values_def)
  with f d show ?thesis by (simp add: permits_def)
qed

lemma validateCAARecords_authorized_iff:
  assumes "request w (''https://dns.google/resolve?name='' @ encodeURIComponent host @ ''&type=CAA'')
             = Inr Answer"
  shows "validateCAARecords w host =
     (if authorized flags_0 Answer then Inr None
      else Inr (Some (map rr_data (issue_records flags_0 (the Answer)))))"
proof (cases Answer)
  case None
  with validateCAARecords_answer [OF assms] show ?thesis by (simp add: authorized_def)
next
  case (Some a)
  have "(\<exists>x\<in>set (issue_records flags_0 a). caaRegex_test (rr_data x))
          = list_ex permits (issue_records flags_0 a)"
    by (auto simp: list_ex_iff caaRegex_test_permits)
  with Some validateCAARecords_answer [OF assms] show ?thesis by (simp add: authorized_def)
qed

lemma buildCache_caa_rejects:
  assumes "validateCAARecords w host = Inr (Some caaRecords)"
  shows "(\<exists>e. buildCache env w st host = (Inl e, st))
     \<and> (\<not> isIpAddress w host \<and> \<not> isExceedHostLimit host \<and> \<not> isExceedLabelLimit host \<longrightarrow>
          buildCache env w st host =
            (Inl (Error (''CAA record is not '' @ dq @ ''letsencrypt.org'' @ dq
                   @ ''. Records found: '' @ join '','' caaRecords @ ''.'')), st))"
  using assms by (simp add: buildCache_def)

lemma caaRegex_test_strings:
  "caaRegex_test x =
     (x \<in> {''0 issue letsencrypt.org'',
            ''0 issue '' @ dq @ ''letsencrypt.org'' @ dq,
            ''0 issue letsencrypt.org;validationmethods=http-01'',
            ''0 issue '' @ dq @ ''letsencrypt.org;validationmethods=http-01'' @ dq})"
  by (auto simp: caaRegex_test_def)

lemma split_on_nonempty: "split_on c s \<noteq> []"
  by (induction s) (auto split: list.splits)

lemma split_on_unfold:
  "split_on c s =
     takeWhile (\<lambda>x. x \<noteq> c) s
       # (case dropWhile (\<lambda>x. x \<noteq> c) s of [] \<Rightarrow> [] | y # rest \<Rightarrow> split_on c rest)"
proof (induction s)
  case Nil
  then show ?case by simp
next
  case (Cons x xs)
  then show ?case using split_on_nonempty [of c xs] by (auto split: list.splits)
qed

lemma join_split_on: "join [c] (split_on c s) = s"
proof (induction s)
  case Nil
  then show ?case by simp
next
  case (Cons x xs)
  show ?case
  proof (cases "x = c")
    case True
    obtain y ys where "split_on c xs = y # ys"
      using split_on_nonempty [of c xs] by (cases "split_on c xs") auto
    with True Cons show ?thesis by simp
  next
    case False
    obtain y ys where y: "split_on c xs = y # ys"
      using split_on_nonempty [of c xs] by (cases "split_on c xs") auto
    with False Cons show ?thesis by (cases ys) auto
  qed
qed

lemma txt_part_apply:
  "txt_part result part =
     (if CHR ''='' \<in> set part \<and> takeWhile (\<lambda>x. x \<noteq> CHR ''='') part \<noteq> []
      then result(takeWhile (\<lambda>x. x \<noteq> CHR ''='') part
                    \<mapsto> drop (length (takeWhile (\<lambda>x. x \<noteq> CHR ''='') part) + 1) part)
      else result)"
proof -
  let ?P = "\<lambda>x. x \<noteq> CHR ''=''"
  define tw where "tw = takeWhile ?P part"
  show ?thesis
  proof (cases "dropWhile ?P part")
    case Nil
    then have s: "split_on (CHR ''='') part = [tw]"
      by (subst split_on_unfold) (simp only: tw_def list.case)
    from Nil have "CHR ''='' \<notin> set part" by (auto simp: dropWhile_eq_Nil_conv)
    with s show ?thesis by (simp add: txt_part_def)
  next
    case (Cons y rest)
    then have s: "split_on (CHR ''='') part = tw # split_on (CHR ''='') rest"
      by (subst split_on_unfold) (simp only: tw_def list.case)
    from Cons have "dropWhile ?P part \<noteq> []" by simp
    then have "\<not> ?P (hd (dropWhile ?P part))" by (rule hd_dropWhile)
    with Cons have y: "y = CHR ''=''" by simp
    have part: "part = tw @ y # rest"
      using Cons takeWhile_dropWhile_id [of ?P part] by (simp add: tw_def)
    have mem: "CHR ''='' \<in> set part" by (subst part) (simp add: y)
    have d: "drop (length tw + 1) part = rest" by (subst part) simp
    have n: "length (split_on (CHR ''='') rest) > 0" using split_on_nonempty [of "CHR ''=''" rest] by simp
    have j: "join ''='' (split_on (CHR ''='') rest) = rest" by (rule join_split_on)
    show ?thesis
      unfolding txt_part_def s using mem d n j by (simp add: tw_def)
  qed
qed

lemma parseTxt_fold:
  "key \<noteq> [] \<Longrightarrow>
   foldl txt_part acc segs key =
     (case find (\<lambda>seg. CHR ''='' \<in> set seg \<and> takeWhile (\<lambda>c. c \<noteq> CHR ''='') seg = key) (rev segs) of
        None \<Rightarrow> acc key
      | Some seg \<Rightarrow> Some (drop (length key + 1) seg))"
proof (induction segs rule: rev_induct)
  case Nil
  then show ?case by simp
next
  case (snoc seg segs)
  then show ?case by (auto simp: txt_part_apply)
qed

lemma parseTxtRecordData_apply:
  "key \<noteq> [] \<Longrightarrow>
   parseTxtRecordData val key =
     (case find (\<lambda>seg. CHR ''='' \<in> set seg \<and> takeWhile (\<lambda>c. c \<noteq> CHR ''='') seg = key)
             (rev (split_on (CHR '';'') val)) of
        None \<Rightarrow> None
      | Some seg \<Rightarrow> Some (drop (length key + 1) seg))"
  unfolding parseTxtRecordData_def by (simp add: parseTxt_fold)

lemma findTxt_loop_find:
  "findTxt_loop Answer =
     (case find qualifies Answer of
        None \<Rightarrow> None
      | Some r \<Rightarrow>
          Some \<lparr>txt_url = orEmpty (parseTxtRecordData (rr_data r) ''forward-domain''),
                txt_httpStatus = parseTxtRecordData (rr_data r) ''http-status''\<rparr>)"
  by (induction Answer)
     (auto simp: qualifies_def Let_def recordParamDestUrl_def recordParamHttpStatus_def)

lemma encodeURIComponent_unreserved:
  "\<forall>c\<in>set s. isUnreserved c \<Longrightarrow> encodeURIComponent s = s"
  by (induction s) (auto simp: encodeURIComponent_def encodeChar_def Let_def)

lemma buildCache_txt_missing:
  "reaches_txt w host \<Longrightarrow> findTxtRecord w host = Inr None \<Longrightarrow>
     buildCache env w st host =
       (Inl (Error (''The TXT record data for '' @ dq @ ''_.'' @ host @ dq @ '' is missing'')), st)"
  by (simp add: buildCache_def reaches_txt_def)

section \<open>The request handler\<close>

lemma fresh_entry_None:
  "(fresh_entry w v = None) =
     (v = None \<or> v = Some Sentinel \<or> (\<exists>c. v = Some (Entry c) \<and> now_lookup w > expire c))"
  by (auto simp: fresh_entry_def split: option.splits cache_val.splits)

lemma fresh_entry_later:
  "fresh_entry w v = None \<Longrightarrow> now_lookup w \<le> now_lookup w' \<Longrightarrow> fresh_entry w' v = None"
  unfolding fresh_entry_None by auto

lemma dispatch_forward:
  "\<not> startsWith (orEmpty (req_url req)) acme_prefix \<Longrightarrow> request_host req \<noteq> [] \<Longrightarrow>
   Some (request_host req) \<noteq> HOME_DOMAIN env \<Longrightarrow>
     dispatch env w s req = (forward env w s req (request_host req) fresh_response, False)"
  by (simp add: dispatch_def Let_def)

lemma resolve_build_Inr:
  assumes "fresh_entry w (map_of (resolveCache s) host) = None"
    "resolve env w s host = (Inr c', s')"
  shows "fst (buildCache env w (policy s) host) = Inr c'
         \<and> map_of (resolveCache s') host = Some (Entry c')"
  using assms(2) unfolding resolve_build [OF assms(1)]
  by (auto simp: lru_set_lookup split: prod.splits sum.splits)

lemma resolve_build_Inl:
  assumes "fresh_entry w (map_of (resolveCache s) host) = None"
    "resolve env w s host = (Inl e, s')"
  shows "fst (buildCache env w (policy s) host) = Inl e
         \<and> map_of (resolveCache s') = map_of (resolveCache s) \<and> policy s' = policy s"
  using assms(2) unfolding resolve_build [OF assms(1)]
  by (auto simp: lru_get_map_of split: prod.splits sum.splits dest: buildCache_Inl_state)

lemma resolve_build_fails:
  assumes "fresh_entry w (map_of (resolveCache s) host) = None"
    "fst (buildCache env w (policy s) host) = Inl e"
  shows "resolve env w s host
           = (Inl e, \<lparr>policy = policy s, resolveCache = snd (lru_get host (resolveCache s))\<rparr>)"
proof -
  obtain st' where b: "buildCache env w (policy s) host = (Inl e, st')"
    using assms(2) by (cases "buildCache env w (policy s) host") auto
  from buildCache_Inl_state [OF b] b show ?thesis
    unfolding resolve_build [OF assms(1)] by simp
qed

lemma catch_error_message:
  "message e = Some m \<Longrightarrow> m \<noteq> [] \<Longrightarrow>
     statusCode (catch_error e res) = Some 400 \<and> written (catch_error e res) = written res @ [m]"
  by (simp add: catch_error_eq truthy_def orEmpty_def write_body_def)

lemma catch_error_no_message:
  "message e = None \<or> message e = Some [] \<Longrightarrow>
     statusCode (catch_error e res) = Some 500
     \<and> written (catch_error e res) = written res @ [''Unknown error'']"
  by (auto simp: catch_error_eq truthy_def write_body_def)

lemma buildCache_error_source:
  "fst (buildCache env w st host) = Inl e \<Longrightarrow> truthy (message e) \<or> (\<exists>u. request w u = Inl e)"
  by (auto simp: buildCache_def validateCAARecords_def findTxtRecord_def Let_def truthy_def dq_def
      split: if_splits sum.splits option.splits prod.splits)

lemma on_data_within:
  "t + sum_list (map length chunks) \<le> MAX_DATA_SIZE \<Longrightarrow>
     on_data chunks (b, t) = (b @ concat chunks, t + sum_list (map length chunks))"
  by (induction chunks arbitrary: b t) (auto simp: add.assoc)

lemma on_data_size:
  "t \<le> MAX_DATA_SIZE \<Longrightarrow>
     (snd (on_data chunks (b, t)) \<le> MAX_DATA_SIZE)
       = (t + sum_list (map length chunks) \<le> MAX_DATA_SIZE)"
  by (induction chunks arbitrary: b t) (auto simp: add.assoc)

lemma body_events_within:
  assumes "req_ends req" "sum_list (map length (req_chunks req)) \<le> MAX_DATA_SIZE"
  shows "body_events w req cache =
     (case qs_domain w (concat (req_chunks req)) of
        QUndefined \<Rightarrow> Inr cache
      | QArray ds \<Rightarrow> Inl (isFQDN_throws w)
      | QString domain \<Rightarrow>
          if domain = [] then Inr cache
          else if isFQDN w domain
          then (case lru_get domain cache of
                  (Some (Entry c), cache1) \<Rightarrow> Inr (lru_set domain Sentinel cache1)
                | (cacheExists, cache1) \<Rightarrow> Inr cache1)
          else Inr cache)"
  using assms on_data_within [of 0 "req_chunks req" "[]"]
  by (simp add: body_events_def on_end_def)

lemma body_events_invalidates:
  assumes "req_ends req" "sum_list (map length (req_chunks req)) \<le> MAX_DATA_SIZE"
    "qs_domain w (concat (req_chunks req)) = QString domain" "domain \<noteq> []" "isFQDN w domain"
    "map_of cache domain = Some (Entry c)"
  shows "body_events w req cache
           = Inr (lru_set domain Sentinel (snd (lru_get domain cache)))
         \<and> map_of (lru_set domain Sentinel (snd (lru_get domain cache))) domain = Some Sentinel"
proof -
  from assms(6) obtain cache1 where "lru_get domain cache = (Some (Entry c), cache1)"
    by (simp add: lru_get_def)
  then show ?thesis
    unfolding body_events_within [OF assms(1,2)] using assms(3-5)
    by (simp add: lru_set_lookup)
qed

lemma body_events_none:
  assumes "\<not> req_ends req \<or> sum_list (map length (req_chunks req)) > MAX_DATA_SIZE"
  shows "body_events w req cache = Inr cache"
proof -
  have "(snd (on_data (req_chunks req) ([], 0)) \<le> MAX_DATA_SIZE)
          = (sum_list (map length (req_chunks req)) \<le> MAX_DATA_SIZE)"
    using on_data_size [of 0 "req_chunks req" "[]"] by simp
  with assms show ?thesis
    by (cases "on_data (req_chunks req) ([], 0)") (auto simp: body_events_def)
qed

lemma body_events_absent:
  assumes "qs_domain w (fst (on_data (req_chunks req) ([], 0))) = QString domain"
    "map_of cache domain = None"
  shows "body_events w req cache = Inr cache"
  using assms
  by (cases "on_data (req_chunks req) ([], 0)")
     (simp add: body_events_def on_end_def lru_get_absent)

lemma not_acme_flushcache: "\<not> startsWith ''/flushcache'' acme_prefix"
  by (simp add: startsWith_def acme_prefix_def)

lemma cors_fields:
  "statusCode (cors res) = statusCode res \<and> written (cors res) = written res
   \<and> ended (cors res) = ended res"
  by (simp add: cors_def setHeader_def)

lemma text_plain_valid:
  "\<forall>h\<in>set [(''Content-Type'', ''text/plain'')]. \<not> list_ex invalidHeaderChar (snd h)"
  by (simp add: invalidHeaderChar_def)

lemma dispatch_flushcache:
  assumes "req_url req = Some ''/flushcache''" "HOME_DOMAIN env = Some (request_host req)"
    "request_host req \<noteq> []"
  shows "dispatch env w s req =
     (if req_method req = Some ''OPTIONS''
      then (((cors fresh_response)\<lparr>statusCode := Some 204\<rparr>, s), False)
      else if req_method req = Some ''POST''
      then ((write_body ''Cache cleared''
               ((cors fresh_response)\<lparr>statusCode := Some 200,
                  headers := headers (cors fresh_response) @ [(''Content-Type'', ''text/plain'')]\<rparr>),
             s), True)
      else ((write_body ''Method Not Allowed''
               ((cors fresh_response)\<lparr>statusCode := Some 405,
                  headers := headers (cors fresh_response) @ [(''Content-Type'', ''text/plain'')]\<rparr>),
             s), False))"
proof -
  have v: "try_catch (writeHead (Some i) [(''Content-Type'', ''text/plain'')] res) rest
             = rest (res\<lparr>statusCode := Some i,
                          headers := headers res @ [(''Content-Type'', ''text/plain'')]\<rparr>)"
    if "100 \<le> i" "i \<le> 999" for i res rest
    using that text_plain_valid by (rule try_catch_valid)
  from assms not_acme_flushcache show ?thesis
    by (simp add: dispatch_def Let_def orEmpty_def v)
qed

lemma listener_flushcache:
  assumes "req_url req = Some ''/flushcache''" "HOME_DOMAIN env = Some (request_host req)"
    "request_host req \<noteq> []"
  shows "(req_method req = Some ''POST'' \<longrightarrow>
           statusCode (fst (listener env w s req)) = Some 200
           \<and> written (fst (listener env w s req)) = [''Cache cleared'']
           \<and> ended (fst (listener env w s req))
           \<and> snd (listener env w s req) = s
           \<and> registers_callbacks env w s req)
       \<and> (req_method req = Some ''OPTIONS'' \<longrightarrow>
           statusCode (fst (listener env w s req)) = Some 204
           \<and> written (fst (listener env w s req)) = []
           \<and> snd (listener env w s req) = s
           \<and> \<not> registers_callbacks env w s req)
       \<and> (req_method req \<noteq> Some ''POST'' \<and> req_method req \<noteq> Some ''OPTIONS'' \<longrightarrow>
           statusCode (fst (listener env w s req)) = Some 405
           \<and> written (fst (listener env w s req)) = [''Method Not Allowed'']
           \<and> snd (listener env w s req) = s
           \<and> \<not> registers_callbacks env w s req)"
  unfolding listener_def registers_callbacks_def dispatch_flushcache [OF assms]
  by (simp add: end_response_def write_body_def cors_fields fresh_response_def)

lemma lowerChar_idem: "lowerChar (lowerChar c) = lowerChar c"
proof (cases "isUpper c")
  case False
  then show ?thesis by (simp add: lowerChar_def)
next
  case True
  then have "(of_char c :: nat) + 32 < 256" by (auto simp: isUpper_def Let_def)
  then have "(of_char (char_of ((of_char c :: nat) + 32)) :: nat) = of_char c + 32" by simp
  with True have "\<not> isUpper (char_of ((of_char c :: nat) + 32))"
    by (auto simp: isUpper_def Let_def)
  with True show ?thesis by (simp add: lowerChar_def)
qed

lemma toLowerCase_fixed: "(\<forall>c\<in>set s. lowerChar c = c) \<Longrightarrow> toLowerCase s = s"
  by (induction s) (auto simp: toLowerCase_def)

lemma strip_port_set: "set (strip_port h) \<subseteq> set h"
proof -
  have "set rest \<subseteq> set h" if "dropWhile isDigit (rev h) = c # rest" for c rest
  proof -
    have "set (dropWhile isDigit (rev h)) \<subseteq> set (rev h)" by (rule set_dropWhileD [THEN subsetI])
    with that show ?thesis by auto
  qed
  then show ?thesis by (auto simp: strip_port_def Let_def split: list.splits)
qed

lemma request_host_lower: "toLowerCase (request_host req) = request_host req"
proof (rule toLowerCase_fixed, rule ballI)
  fix c assume "c \<in> set (request_host req)"
  with strip_port_set have "c \<in> set (toLowerCase (orEmpty (req_host req)))"
    unfolding request_host_def by blast
  then show "lowerChar c = c" by (auto simp: toLowerCase_def lowerChar_idem)
qed

lemma keys_lower_subset: "keys_lower c \<Longrightarrow> fst ` set c' \<subseteq> fst ` set c \<Longrightarrow> keys_lower c'"
  unfolding keys_lower_def by blast

lemma lru_set_keys: "fst ` set (lru_set k v c) \<subseteq> insert k (fst ` set c)"
  using lru_set_set [of k v c] by auto

lemma keys_lower_get: "keys_lower c \<Longrightarrow> keys_lower (snd (lru_get k c))"
  by (erule keys_lower_subset) (rule lru_get_keys)

lemma keys_lower_set:
  assumes "keys_lower c" "toLowerCase k = k"
  shows "keys_lower (lru_set k v c)"
  unfolding keys_lower_def
proof
  fix x assume "x \<in> fst ` set (lru_set k v c)"
  with lru_set_keys [of k v c] have "x = k \<or> x \<in> fst ` set c" by blast
  with assms show "toLowerCase x = x" unfolding keys_lower_def by blast
qed

lemma keys_lower_absent:
  "keys_lower c \<Longrightarrow> toLowerCase domain \<noteq> domain \<Longrightarrow> map_of c domain = None"
  unfolding keys_lower_def by (auto simp: map_of_eq_None_iff)

lemma keys_lower_on_end:
  assumes c: "keys_lower c" and r: "on_end w bt c = Inr c'"
  shows "keys_lower c'"
proof -
  obtain body totalSize where bt: "bt = (body, totalSize)" by (cases bt)
  show ?thesis
  proof (cases "qs_domain w body")
    case QUndefined
    with r c bt show ?thesis by (simp add: on_end_def split: if_splits)
  next
    case (QArray ds)
    with r c bt show ?thesis by (simp add: on_end_def split: if_splits)
  next
    case (QString d)
    obtain v c1 where l: "lru_get d c = (v, c1)" by (cases "lru_get d c")
    from l keys_lower_get [OF c, of d] have c1: "keys_lower c1" by simp
    have "keys_lower (lru_set d Sentinel c1)" if "v = Some x" for x
    proof -
      from that l have "map_of c d = Some x" using lru_get_fst [of d c] by simp
      then have "d \<in> fst ` set c" by (metis domI dom_map_of_conv_image_fst)
      with c have "toLowerCase d = d" unfolding keys_lower_def by blast
      with c1 show ?thesis by (simp add: keys_lower_set)
    qed
    with r c c1 bt QString l show ?thesis
      by (auto simp: on_end_def split: if_splits option.splits cache_val.splits)
  qed
qed

lemma keys_lower_body_events:
  "keys_lower c \<Longrightarrow> body_events w req c = Inr c' \<Longrightarrow> keys_lower c'"
  by (auto simp: body_events_def split: prod.splits if_splits dest: keys_lower_on_end)

lemma keys_lower_resolve:
  assumes "keys_lower (resolveCache s)" "toLowerCase host = host"
  shows "keys_lower (resolveCache (snd (resolve env w s host)))"
proof -
  note g = keys_lower_get [OF assms(1), of host]
  show ?thesis
  proof (cases "fresh_entry w (map_of (resolveCache s) host)")
    case (Some c)
    from resolve_fresh [OF Some, of env] g show ?thesis by simp
  next
    case None
    from g assms(2) have "keys_lower (lru_set host v (snd (lru_get host (resolveCache s))))" for v
      by (rule keys_lower_set)
    with g show ?thesis
      unfolding resolve_build [OF None] by (simp split: prod.splits sum.splits)
  qed
qed

lemma keys_lower_listener:
  assumes "keys_lower (resolveCache s)"
  shows "keys_lower (resolveCache (snd (listener env w s req)))"
proof -
  have "keys_lower (resolveCache (snd (resolve env w s (request_host req))))"
    using assms request_host_lower by (rule keys_lower_resolve)
  then show ?thesis
    using assms dispatch_state_cases [of env w s req] unfolding listener_state by auto
qed

lemma resolve_keys:
  "fst ` set (resolveCache (snd (resolve env w s host))) \<subseteq> insert host (fst ` set (resolveCache s))"
proof (cases "fresh_entry w (map_of (resolveCache s) host)")
  case (Some c)
  from resolve_fresh [OF Some, of env] lru_get_keys [of host "resolveCache s"]
  show ?thesis by auto
next
  case None
  have "fst ` set (lru_set host v (snd (lru_get host (resolveCache s))))
          \<subseteq> insert host (fst ` set (resolveCache s))" for v
    using lru_set_keys [of host v "snd (lru_get host (resolveCache s))"]
      lru_get_keys [of host "resolveCache s"] by blast
  moreover have "fst ` set (snd (lru_get host (resolveCache s)))
          \<subseteq> insert host (fst ` set (resolveCache s))"
    using lru_get_keys [of host "resolveCache s"] by blast
  ultimately show ?thesis
    unfolding resolve_build [OF None] by (simp split: prod.splits sum.splits)
qed

lemma forward_location:
  assumes "resolve env w s host = (Inr c, s')" "\<not> blacklisted c"
    "httpStatus c \<in> allowed_statuses"
  shows "forward env w s req host res =
     (let loc = (if expand c then combineURLs (url c) (orEmpty (req_url req)) else url c)
      in if list_ex invalidHeaderChar loc
         then write_body (''Invalid character in header content ['' @ dq @ ''Location'' @ dq @ '']'')
                (res\<lparr>statusCode := Some 400\<rparr>)
         else res\<lparr>statusCode := httpStatus c, headers := headers res @ [(''Location'', loc)]\<rparr>,
      s')"
proof -
  from allowed_statuses_range [OF assms(3)] obtain i where
    i: "httpStatus c = Some i" "100 \<le> i" "i \<le> 999" by blast
  show ?thesis
    unfolding forward_Inr [OF assms(1)] respond_location [OF assms(2) i]
    by (simp add: Let_def try_catch_None try_catch_Some catch_error_eq truthy_def orEmpty_def i(1))
qed

lemma listener_forward:
  "\<not> startsWith (orEmpty (req_url req)) acme_prefix \<Longrightarrow> request_host req \<noteq> [] \<Longrightarrow>
   Some (request_host req) \<noteq> HOME_DOMAIN env \<Longrightarrow>
     listener env w s req
       = (case forward env w s req (request_host req) fresh_response of
            (res', s') \<Rightarrow> (end_response res', s'))"
  by (simp add: listener_def dispatch_forward)

lemma flush_events_invalidates:
  assumes "req_ends req" "sum_list (map length (req_chunks req)) \<le> MAX_DATA_SIZE"
    "qs_domain w (concat (req_chunks req)) = QString domain" "domain \<noteq> []" "isFQDN w domain"
    "map_of (resolveCache s) domain = Some (Entry c)"
  shows "\<exists>s1. flush_events w req s = Inr s1 \<and> policy s1 = policy s
           \<and> map_of (resolveCache s1) domain = Some Sentinel"
  using body_events_invalidates [OF assms] by (simp add: flush_events_def)

lemma flush_events_none:
  "\<not> req_ends req \<or> sum_list (map length (req_chunks req)) > MAX_DATA_SIZE \<Longrightarrow>
     flush_events w req s = Inr s"
  by (simp add: flush_events_def body_events_none)

lemma flush_events_absent:
  assumes "qs_domain w (fst (on_data (req_chunks req) ([], 0))) = QString domain"
    "map_of (resolveCache s) domain = None"
  shows "flush_events w req s = Inr s"
  using body_events_absent [OF assms] by (simp add: flush_events_def)

lemma flush_events_array:
  assumes "req_ends req" "sum_list (map length (req_chunks req)) \<le> MAX_DATA_SIZE"
    "qs_domain w (concat (req_chunks req)) = QArray ds"
  shows "flush_events w req s = Inl (isFQDN_throws w)"
  using assms(3) unfolding flush_events_def body_events_within [OF assms(1,2)] by simp

lemma keys_lower_flush_events:
  "keys_lower (resolveCache s) \<Longrightarrow> flush_events w req s = Inr s' \<Longrightarrow> keys_lower (resolveCache s')"
  by (auto simp: flush_events_def split: sum.splits dest: keys_lower_body_events)

lemma serve_fst: "fst (serve env w s req) = fst (listener env w s req)"
  by (simp add: serve_def split: prod.splits)

lemma serve_snd:
  "snd (serve env w s req) =
     (if registers_callbacks env w s req then flush_events w req (snd (listener env w s req))
      else Inr (snd (listener env w s req)))"
  by (simp add: serve_def split: prod.splits)

lemma serve_flushcache:
  assumes "req_url req = Some ''/flushcache''" "HOME_DOMAIN env = Some (request_host req)"
    "request_host req \<noteq> []"
  shows "snd (serve env w s req)
           = (if req_method req = Some ''POST'' then flush_events w req s else Inr s)"
  using listener_flushcache [OF assms, where w = w and s = s] unfolding serve_snd by auto

section \<open>The claims\<close>

subsection \<open>C1: the suffix walk of isHostBlacklisted\<close>

text \<open>
  C1. On the module state that the program reaches (the maps are \<open>null\<close> before the
  first call, and the first call builds them with \<open>csvToMap\<close> from the environment),
  \<open>isHostBlacklisted\<close> returns what the walk of the specification returns: along the
  suffixes of the host from the longest to the shortest, past a suffix with no entry or
  with \<open>false\<close>, a match at the first suffix with \<open>true\<close> (\<open>spec_walk\<close>); with a
  whitelist configured it returns the negation of that walk on the whitelist map. With
  only a blacklist configured the result is true iff some suffix of the host has the
  entry \<open>true\<close> in the blacklist map, and with a whitelist configured it is the negation
  of that for the whitelist map. A later call, on the initialised module state, answers
  as the first. (The loops of the code read the suffixes in the other order and return
  at a missing entry; on the maps of \<open>csvToMap\<close>, where every shorter dot suffix of a
  key is a key, the result is the same.)
\<close>

theorem isHostBlacklisted_walk:
  "fst (isHostBlacklisted env policy_null h) =
     (if truthy (WHITELIST_HOSTS env)
      then \<not> spec_walk (csvToMap (orEmpty (WHITELIST_HOSTS env))) (rev (suffixes h))
      else spec_walk (csvToMap (orEmpty (BLACKLIST_HOSTS env))) (rev (suffixes h)))
   \<and> set (rev (suffixes h)) = {s. suffix s h}
   \<and> sorted_wrt (\<lambda>a b. length a > length b) (rev (suffixes h))
   \<and> fst (isHostBlacklisted env policy_null h) =
        (if truthy (WHITELIST_HOSTS env)
         then \<not> (\<exists>s. suffix s h \<and> csvToMap (orEmpty (WHITELIST_HOSTS env)) s = Some True)
         else (\<exists>s. suffix s h \<and> csvToMap (orEmpty (BLACKLIST_HOSTS env)) s = Some True))
   \<and> isHostBlacklisted env (snd (isHostBlacklisted env policy_null h0)) h
        = isHostBlacklisted env policy_null h"
proof (intro conjI)
  show iff: "fst (isHostBlacklisted env policy_null h) =
        (if truthy (WHITELIST_HOSTS env)
         then \<not> (\<exists>s. suffix s h \<and> csvToMap (orEmpty (WHITELIST_HOSTS env)) s = Some True)
         else (\<exists>s. suffix s h \<and> csvToMap (orEmpty (BLACKLIST_HOSTS env)) s = Some True))"
    by (simp add: isHostBlacklisted_match policy_init_null
        policy_match_suffix [OF csvToMap_closed])
  have w: "spec_walk m (rev (suffixes h)) = (\<exists>s. suffix s h \<and> m s = Some True)" for m
    unfolding spec_walk_ex by auto
  show "fst (isHostBlacklisted env policy_null h) =
     (if truthy (WHITELIST_HOSTS env)
      then \<not> spec_walk (csvToMap (orEmpty (WHITELIST_HOSTS env))) (rev (suffixes h))
      else spec_walk (csvToMap (orEmpty (BLACKLIST_HOSTS env))) (rev (suffixes h)))"
    unfolding iff w ..
  show "set (rev (suffixes h)) = {s. suffix s h}" by auto
  show "sorted_wrt (\<lambda>a b. length a > length b) (rev (suffixes h))"
    by (rule suffixes_rev_sorted)
  have st1: "snd (isHostBlacklisted env policy_null h0) = snd (policy_init env policy_null)"
    by (simp add: isHostBlacklisted_match policy_init_null)
  show "isHostBlacklisted env (snd (isHostBlacklisted env policy_null h0)) h
        = isHostBlacklisted env policy_null h"
    unfolding st1 by (simp add: isHostBlacklisted_match policy_init_idem)
qed

text \<open>
  The theorem at \<open>BLACKLIST_HOSTS = "a.b.com"\<close>: \<open>x.b.com\<close> has the suffix \<open>.b.com\<close>
  with a terminal entry, the walk matches and the host is blacklisted; \<open>b.com\<close> has
  none and is not. At \<open>WHITELIST_HOSTS = "a.b.com"\<close>: \<open>x.b.com\<close> is not blacklisted and
  \<open>other.org\<close> is.
\<close>

theorem isHostBlacklisted_walk_witness:
  "fst (isHostBlacklisted env_blacklist_ab policy_null ''x.b.com'') = True
   \<and> spec_walk (csvToMap ''a.b.com'') (rev (suffixes ''x.b.com'')) = True
   \<and> fst (isHostBlacklisted env_blacklist_ab policy_null ''b.com'') = False
   \<and> spec_walk (csvToMap ''a.b.com'') (rev (suffixes ''b.com'')) = False
   \<and> fst (isHostBlacklisted env_whitelist_ab policy_null ''x.b.com'') = False
   \<and> fst (isHostBlacklisted env_whitelist_ab policy_null ''other.org'') = True
   \<and> spec_walk (csvToMap ''a.b.com'') (rev (suffixes ''other.org'')) = False
   \<and> fst (isHostBlacklisted env_blacklist_ab
            (snd (isHostBlacklisted env_blacklist_ab policy_null ''b.com'')) ''x.b.com'') = True"
proof -
  have a: "spec_walk (csvToMap ''a.b.com'') (rev (suffixes ''x.b.com'')) = True"
    "spec_walk (csvToMap ''a.b.com'') (rev (suffixes ''b.com'')) = False"
    "spec_walk (csvToMap ''a.b.com'') (rev (suffixes ''other.org'')) = False"
    by code_simp+
  have t: "truthy (WHITELIST_HOSTS env_blacklist_ab) = False"
    "orEmpty (BLACKLIST_HOSTS env_blacklist_ab) = ''a.b.com''"
    "truthy (WHITELIST_HOSTS env_whitelist_ab) = True"
    "orEmpty (WHITELIST_HOSTS env_whitelist_ab) = ''a.b.com''"
    by (simp_all add: env_blacklist_ab_def env_whitelist_ab_def truthy_def orEmpty_def)
  note b1 = isHostBlacklisted_walk [where env = env_blacklist_ab and h = "''x.b.com''"
      and ?h0.0 = "''b.com''", unfolded t if_False, THEN conjunct1]
  note b1' = isHostBlacklisted_walk [where env = env_blacklist_ab and h = "''x.b.com''"
      and ?h0.0 = "''b.com''", THEN conjunct2, THEN conjunct2, THEN conjunct2, THEN conjunct2]
  note b2 = isHostBlacklisted_walk [where env = env_blacklist_ab and h = "''b.com''",
      unfolded t if_False, THEN conjunct1]
  note w1 = isHostBlacklisted_walk [where env = env_whitelist_ab and h = "''x.b.com''",
      unfolded t if_True, THEN conjunct1]
  note w2 = isHostBlacklisted_walk [where env = env_whitelist_ab and h = "''other.org''",
      unfolded t if_True, THEN conjunct1]
  from b1 b1' b2 w1 w2 a show ?thesis by simp
qed

subsection \<open>C2: the entries of csvToMap\<close>

text \<open>
  C2 says that for every suffix position from the full host down to the top-level label
  \<open>csvToMap\<close> records whether the suffix is the most specific entry, the entry marked
  "stop here" being the host supplied. The code takes the positions of the dots for the
  positions of the labels (\<open>labelPositions = findDotPositions(host)\<close>) and marks
  \<open>i == 0\<close>: the list has no position for the first label, so the mark falls on the host
  without its first label. With \<open>BLACKLIST_HOSTS = "evil.example.com"\<close> the map has no
  entry for \<open>evil.example.com\<close>, it holds \<open>true\<close> for \<open>.example.com\<close>, and
  \<open>shop.example.com\<close>, which is not in the list, is blacklisted.
\<close>

theorem csvToMap_first_label_missing:
  "csvToMap ''evil.example.com'' ''evil.example.com'' = None
   \<and> csvToMap ''evil.example.com'' ''example.com'' = None
   \<and> csvToMap ''evil.example.com'' ''.example.com'' = Some True
   \<and> csvToMap ''evil.example.com'' ''.com'' = Some False
   \<and> fst (isHostBlacklisted env_blacklist_evil policy_null ''evil.example.com'') = True
   \<and> fst (isHostBlacklisted env_blacklist_evil policy_null ''shop.example.com'') = True"
  by code_simp

subsection \<open>C3: the redirect status is one of 301, 302, 307, 308\<close>

text \<open>
  C3. A decision that \<open>buildCache\<close> returns has its \<open>httpStatus\<close> in
  \<open>{301, 302, 307, 308}\<close>. When the TXT record has no \<open>http-status\<close> field the status is
  301. When the field is outside the allow-list, \<open>buildCache\<close> throws, with the code in
  the message, and leaves the module state as it was. The decision that the handler's
  lookup serves, from the cache or freshly built, has an allowed status as well, and so
  has the status that \<open>writeHead\<close> is called with for it, as long as every entry of the
  cache has one: the empty cache does, and every request keeps it so, in the handler
  and in the callbacks of /flushcache that run after it.
\<close>

theorem buildCache_status_allowed:
  "(fst (buildCache env w st host) = Inr c \<longrightarrow>
      httpStatus c \<in> {Some 301, Some 302, Some 307, Some 308})
   \<and> (reaches_txt w host \<and> findTxtRecord w host = Inr (Some recordData)
        \<and> absolute_url (txt_url recordData) \<and> txt_httpStatus recordData = None \<longrightarrow>
        (\<exists>c'. fst (buildCache env w st host) = Inr c' \<and> httpStatus c' = Some 301))
   \<and> (reaches_txt w host \<and> findTxtRecord w host = Inr (Some recordData)
        \<and> absolute_url (txt_url recordData) \<and> txt_httpStatus recordData = Some code
        \<and> code \<notin> set [''301'', ''302'', ''307'', ''308''] \<longrightarrow>
        buildCache env w st host =
          (Inl (Error (''The record '' @ dq @ strip_star (txt_url recordData) @ dq
                 @ '' wants to use the http status code '' @ code
                 @ '' which is not allowed (only 301, 302, 307 and 308)'')), st))
   \<and> (cache_statuses_allowed (resolveCache s) \<and> resolve env w s host = (Inr c, s') \<longrightarrow>
        httpStatus c \<in> {Some 301, Some 302, Some 307, Some 308}
        \<and> (\<not> blacklisted c \<longrightarrow>
             statusCode (snd (respond (policy s') req c res))
               \<in> {Some 301, Some 302, Some 307, Some 308}))
   \<and> cache_statuses_allowed []
   \<and> (cache_statuses_allowed (resolveCache s) \<longrightarrow>
        cache_statuses_allowed (resolveCache (snd (listener env w s req))))
   \<and> (cache_statuses_allowed (resolveCache s) \<and> flush_events w req s = Inr s' \<longrightarrow>
        cache_statuses_allowed (resolveCache s'))
   \<and> (cache_statuses_allowed (resolveCache s) \<and> snd (serve env w s req) = Inr s' \<longrightarrow>
        cache_statuses_allowed (resolveCache s'))"
proof (intro conjI impI)
  assume "fst (buildCache env w st host) = Inr c"
  then have "buildCache env w st host = (Inr c, snd (buildCache env w st host))"
    by (metis prod.collapse)
  from buildCache_status [OF this]
  show "httpStatus c \<in> {Some 301, Some 302, Some 307, Some 308}"
    by (simp add: allowed_statuses_def)
next
  assume a: "reaches_txt w host \<and> findTxtRecord w host = Inr (Some recordData)
        \<and> absolute_url (txt_url recordData) \<and> txt_httpStatus recordData = None"
  then have d: "httpStatus_or_default recordData = ''301''"
    by (simp add: httpStatus_or_default_def)
  have "isHttpCodeAllowed ''301''" "parseInt ''301'' = Some 301"
    by (simp add: isHttpCodeAllowed_def, code_simp)
  with a d buildCache_reached [of w host recordData env st]
  show "\<exists>c'. fst (buildCache env w st host) = Inr c' \<and> httpStatus c' = Some 301"
    by simp
next
  assume a: "reaches_txt w host \<and> findTxtRecord w host = Inr (Some recordData)
        \<and> absolute_url (txt_url recordData) \<and> txt_httpStatus recordData = Some code
        \<and> code \<notin> set [''301'', ''302'', ''307'', ''308'']"
  then have d: "httpStatus_or_default recordData = code"
    by (simp add: httpStatus_or_default_def)
  from a have "\<not> isHttpCodeAllowed code" by (simp add: isHttpCodeAllowed_def)
  with a d buildCache_reached [of w host recordData env st]
  show "buildCache env w st host =
          (Inl (Error (''The record '' @ dq @ strip_star (txt_url recordData) @ dq
                 @ '' wants to use the http status code '' @ code
                 @ '' which is not allowed (only 301, 302, 307 and 308)'')), st)"
    by (simp add: status_error_def)
next
  assume a: "cache_statuses_allowed (resolveCache s) \<and> resolve env w s host = (Inr c, s')"
  then have "httpStatus c \<in> allowed_statuses"
    using resolve_status [of s env w host "Inr c" s'] by simp
  then show ok: "httpStatus c \<in> {Some 301, Some 302, Some 307, Some 308}"
    by (simp add: allowed_statuses_def)
  assume nb: "\<not> blacklisted c"
  from ok have "httpStatus c \<in> allowed_statuses" by (simp add: allowed_statuses_def)
  from respond_status [OF nb this]
  show "statusCode (snd (respond (policy s') req c res))
          \<in> {Some 301, Some 302, Some 307, Some 308}"
    using ok by simp
next
  show "cache_statuses_allowed []" by (simp add: cache_statuses_allowed_def)
next
  assume "cache_statuses_allowed (resolveCache s)"
  then show "cache_statuses_allowed (resolveCache (snd (listener env w s req)))"
    by (rule listener_statuses)
next
  assume "cache_statuses_allowed (resolveCache s) \<and> flush_events w req s = Inr s'"
  then show "cache_statuses_allowed (resolveCache s')"
    by (auto simp: flush_events_def split: sum.splits dest: body_events_statuses)
next
  assume a: "cache_statuses_allowed (resolveCache s) \<and> snd (serve env w s req) = Inr s'"
  then have l: "cache_statuses_allowed (resolveCache (snd (listener env w s req)))"
    by (simp add: listener_statuses)
  from a have "flush_events w req (snd (listener env w s req)) = Inr s'
      \<or> s' = snd (listener env w s req)"
    unfolding serve_snd by (auto split: if_splits)
  with l show "cache_statuses_allowed (resolveCache s')"
    by (auto simp: flush_events_def split: sum.splits dest: body_events_statuses)
qed

text \<open>
  The theorem at \<open>shop.example.com\<close>: with \<open>http-status=302\<close> the decision has status
  302, with no \<open>http-status\<close> field it has 301, and with \<open>http-status=404\<close>
  \<open>buildCache\<close> throws the message that names 404.
\<close>

theorem buildCache_status_allowed_witness:
  "fst (buildCache example_env (example_world (Inr None) txt_302) policy_null ''shop.example.com'')
     = Inr \<lparr>url = ''https://dest.example/app'', expand = False, blacklisted = False,
            expire = 86401000, httpStatus = Some 302\<rparr>
   \<and> Some 302 \<in> {Some 301, Some 302, Some 307, Some (308 :: int)}
   \<and> (\<exists>c'. fst (buildCache example_env (example_world (Inr None) txt_default) policy_null
                   ''shop.example.com'') = Inr c' \<and> httpStatus c' = Some 301)
   \<and> buildCache example_env (example_world (Inr None) txt_404) policy_null ''shop.example.com''
     = (Inl (Error (''The record '' @ dq @ ''https://dest.example/app'' @ dq
              @ '' wants to use the http status code 404 which is not allowed (only 301, 302, 307 and 308)'')),
        policy_null)"
proof -
  let ?host = "''shop.example.com''"
  let ?c = "\<lparr>url = ''https://dest.example/app'', expand = False, blacklisted = False,
            expire = 86401000, httpStatus = Some 302\<rparr>"
  let ?r404 = "\<lparr>txt_url = ''https://dest.example/app*'', txt_httpStatus = Some ''404''\<rparr>"
  let ?rdef = "\<lparr>txt_url = ''https://dest.example/app'', txt_httpStatus = None\<rparr>"
  have a: "fst (buildCache example_env (example_world (Inr None) txt_302) policy_null ?host) = Inr ?c"
    by code_simp
  have b: "reaches_txt (example_world (Inr None) txt_404) ?host"
    "findTxtRecord (example_world (Inr None) txt_404) ?host = Inr (Some ?r404)"
    "absolute_url (txt_url ?r404)" "txt_httpStatus ?r404 = Some ''404''"
    "''404'' \<notin> set [''301'', ''302'', ''307'', ''308'']"
    "strip_star (txt_url ?r404) = ''https://dest.example/app''"
    by code_simp+
  have d: "reaches_txt (example_world (Inr None) txt_default) ?host"
    "findTxtRecord (example_world (Inr None) txt_default) ?host = Inr (Some ?rdef)"
    "absolute_url (txt_url ?rdef)" "txt_httpStatus ?rdef = None"
    by code_simp+
  note t1 = buildCache_status_allowed [of example_env "example_world (Inr None) txt_302"
      policy_null ?host ?c]
  note t2 = buildCache_status_allowed [of example_env "example_world (Inr None) txt_default"
      policy_null ?host _ ?rdef]
  note t3 = buildCache_status_allowed [of example_env "example_world (Inr None) txt_404"
      policy_null ?host _ ?r404 "''404''"]
  from t1 a have "httpStatus ?c \<in> {Some 301, Some 302, Some 307, Some 308}" by blast
  moreover from t2 d
  have "\<exists>c'. fst (buildCache example_env (example_world (Inr None) txt_default) policy_null ?host)
            = Inr c' \<and> httpStatus c' = Some 301" by blast
  moreover from t3 b(1-5)
  have "buildCache example_env (example_world (Inr None) txt_404) policy_null ?host
     = (Inl (Error (''The record '' @ dq @ strip_star (txt_url ?r404) @ dq
              @ '' wants to use the http status code '' @ ''404''
              @ '' which is not allowed (only 301, 302, 307 and 308)'')), policy_null)" by blast
  ultimately show ?thesis using a b(6) by simp
qed

subsection \<open>C4: the trailing star and the redirect target\<close>

text \<open>
  C4. When \<open>buildCache\<close> reaches the TXT record and its \<open>forward-domain\<close> value is an
  absolute URL with an allowed status, it returns a decision; and whenever it returns
  one, for a value that ends in \<open>*\<close> the decision has \<open>expand\<close> set and its \<open>url\<close> is the
  value without that last character (one star is removed, whatever precedes it), so the
  value itself is never the destination; otherwise \<open>expand\<close> is false and \<open>url\<close> is the
  value. For a decision that is not blacklisted the handler calls \<open>writeHead\<close> with one
  \<open>Location\<close> header: \<open>url\<close> itself when \<open>expand\<close> is false, \<open>combineURLs\<close> of \<open>url\<close> and
  the request's path when it is true. That is the redirect of the response, unless
  the value has a character that \<open>writeHead\<close> refuses: then no redirect is written and
  the \<open>catch\<close> block answers 400 with the message of \<open>writeHead\<close>. For a path that is not
  empty \<open>combineURLs\<close> removes the slashes at the end of the base and at the start of the
  path and joins the two with one slash; for the empty path it is the base.
\<close>

theorem wildcard_location:
  "(reaches_txt w host \<and> findTxtRecord w host = Inr (Some recordData)
      \<and> absolute_url (txt_url recordData)
      \<and> httpStatus_or_default recordData \<in> set [''301'', ''302'', ''307'', ''308''] \<longrightarrow>
      (\<exists>c'. fst (buildCache env w st host) = Inr c'
         \<and> expand c' = endsWith (txt_url recordData) ''*''
         \<and> txt_url recordData = url c' @ (if expand c' then ''*'' else [])))
   \<and> (fst (buildCache env w st host) = Inr c \<and> findTxtRecord w host = Inr (Some recordData) \<longrightarrow>
      (endsWith (txt_url recordData) ''*'' \<longrightarrow>
         expand c \<and> txt_url recordData = url c @ ''*'' \<and> url c \<noteq> txt_url recordData)
      \<and> (\<not> endsWith (txt_url recordData) ''*'' \<longrightarrow>
         \<not> expand c \<and> url c = txt_url recordData))
   \<and> (resolve env w s host = (Inr c, s') \<and> \<not> blacklisted c
        \<and> httpStatus c \<in> {Some 301, Some 302, Some 307, Some 308} \<longrightarrow>
        forward env w s req host res =
          (let loc = (if expand c then combineURLs (url c) (orEmpty (req_url req)) else url c)
           in if list_ex invalidHeaderChar loc
              then write_body (''Invalid character in header content ['' @ dq @ ''Location'' @ dq @ '']'')
                     (res\<lparr>statusCode := Some 400\<rparr>)
              else res\<lparr>statusCode := httpStatus c, headers := headers res @ [(''Location'', loc)]\<rparr>,
           s'))
   \<and> (\<not> startsWith (orEmpty (req_url req)) acme_prefix \<and> request_host req \<noteq> []
        \<and> Some (request_host req) \<noteq> HOME_DOMAIN env \<longrightarrow>
        listener env w s req
          = (case forward env w s req (request_host req) fresh_response of
               (res', s') \<Rightarrow> (end_response res', s')))
   \<and> (relativeURL \<noteq> [] \<longrightarrow>
        (\<exists>b r m n. baseURL = b @ replicate m (CHR ''/'')
           \<and> relativeURL = replicate n (CHR ''/'') @ r
           \<and> \<not> endsWith b ''/'' \<and> \<not> startsWith r ''/''
           \<and> combineURLs baseURL relativeURL = b @ ''/'' @ r))
   \<and> combineURLs baseURL [] = baseURL"
proof (intro conjI impI)
  assume a: "reaches_txt w host \<and> findTxtRecord w host = Inr (Some recordData)
      \<and> absolute_url (txt_url recordData)
      \<and> httpStatus_or_default recordData \<in> set [''301'', ''302'', ''307'', ''308'']"
  then have "isHttpCodeAllowed (httpStatus_or_default recordData)"
    by (simp add: isHttpCodeAllowed_def)
  with a buildCache_reached [of w host recordData env st]
  have "\<exists>c'. fst (buildCache env w st host) = Inr c'
         \<and> expand c' = endsWith (txt_url recordData) ''*''
         \<and> url c' = strip_star (txt_url recordData)" by simp
  then show "\<exists>c'. fst (buildCache env w st host) = Inr c'
         \<and> expand c' = endsWith (txt_url recordData) ''*''
         \<and> txt_url recordData = url c' @ (if expand c' then ''*'' else [])"
    using endsWith_butlast [of "txt_url recordData"] by (auto simp: strip_star_def)
next
  assume a: "fst (buildCache env w st host) = Inr c \<and> findTxtRecord w host = Inr (Some recordData)"
  then have f: "url c = strip_star (txt_url recordData)"
      "expand c = endsWith (txt_url recordData) ''*''"
    using buildCache_Inr_fields [of env w st host c recordData] by simp_all
  {
    assume e: "endsWith (txt_url recordData) ''*''"
    with f show "expand c" by simp
    from e f endsWith_butlast [OF e] show "txt_url recordData = url c @ ''*''"
      by (simp add: strip_star_def)
    then show "url c \<noteq> txt_url recordData" by (metis append_self_conv list.distinct(1))
  }
  {
    assume e: "\<not> endsWith (txt_url recordData) ''*''"
    with f show "\<not> expand c" by simp
    from e f show "url c = txt_url recordData" by (simp add: strip_star_def)
  }
next
  assume a: "resolve env w s host = (Inr c, s') \<and> \<not> blacklisted c
        \<and> httpStatus c \<in> {Some 301, Some 302, Some 307, Some 308}"
  then have r: "resolve env w s host = (Inr c, s')" and nb: "\<not> blacklisted c"
    and al: "httpStatus c \<in> allowed_statuses" by (simp_all add: allowed_statuses_def)
  show "forward env w s req host res =
          (let loc = (if expand c then combineURLs (url c) (orEmpty (req_url req)) else url c)
           in if list_ex invalidHeaderChar loc
              then write_body (''Invalid character in header content ['' @ dq @ ''Location'' @ dq @ '']'')
                     (res\<lparr>statusCode := Some 400\<rparr>)
              else res\<lparr>statusCode := httpStatus c, headers := headers res @ [(''Location'', loc)]\<rparr>,
           s')"
    by (rule forward_location [OF r nb al])
next
  assume "\<not> startsWith (orEmpty (req_url req)) acme_prefix \<and> request_host req \<noteq> []
        \<and> Some (request_host req) \<noteq> HOME_DOMAIN env"
  then show "listener env w s req
          = (case forward env w s req (request_host req) fresh_response of
               (res', s') \<Rightarrow> (end_response res', s'))"
    by (simp add: listener_forward)
next
  assume "relativeURL \<noteq> []"
  then show "\<exists>b r m n. baseURL = b @ replicate m (CHR ''/'')
           \<and> relativeURL = replicate n (CHR ''/'') @ r
           \<and> \<not> endsWith b ''/'' \<and> \<not> startsWith r ''/''
           \<and> combineURLs baseURL relativeURL = b @ ''/'' @ r"
    by (rule combineURLs_join)
next
  show "combineURLs baseURL [] = baseURL" by (simp add: combineURLs_def)
qed

text \<open>
  The theorem at the spec's example: for \<open>forward-domain=https://dest.example/app*\<close>
  \<open>buildCache\<close> returns the decision with the URL \<open>https://dest.example/app\<close> and
  \<open>expand\<close> set, and the request for the path \<open>/x?y=1\<close> is answered with the redirect
  to \<open>https://dest.example/app/x?y=1\<close>. For a \<open>forward-domain\<close> value with a vertical
  tab the request is answered 400 and no \<open>Location\<close> is written.
\<close>

theorem wildcard_location_witness:
  "fst (buildCache example_env (example_world (Inr None) txt_star) policy_null ''shop.example.com'')
     = Inr \<lparr>url = ''https://dest.example/app'', expand = True, blacklisted = False,
            expire = 86401000, httpStatus = Some 301\<rparr>
   \<and> ''https://dest.example/app*'' = ''https://dest.example/app'' @ ''*''
   \<and> fst (listener example_env (example_world (Inr None) txt_star) (example_state [])
           (example_request ''GET'' ''shop.example.com'' ''/x?y=1''))
       = \<lparr>statusCode = Some 301, headers = [(''Location'', ''https://dest.example/app/x?y=1'')],
          written = [], ended = True\<rparr>
   \<and> fst (listener example_env (example_world (Inr None) txt_control) (example_state [])
           (example_request ''GET'' ''shop.example.com'' ''/''))
       = \<lparr>statusCode = Some 400, headers = [],
          written = [''Invalid character in header content ['' @ dq @ ''Location'' @ dq @ '']''],
          ended = True\<rparr>"
proof -
  let ?w = "example_world (Inr None) txt_star"
  let ?wc = "example_world (Inr None) txt_control"
  let ?host = "''shop.example.com''"
  let ?s = "example_state []"
  let ?c = "\<lparr>url = ''https://dest.example/app'', expand = True, blacklisted = False,
           expire = 86401000, httpStatus = Some 301\<rparr>"
  let ?cc = "\<lparr>url = ''https://dest.example/a'' @ [CHR 0x0B] @ ''b'', expand = False,
           blacklisted = False, expire = 86401000, httpStatus = Some 301\<rparr>"
  let ?rd = "\<lparr>txt_url = ''https://dest.example/app*'', txt_httpStatus = None\<rparr>"
  let ?req = "example_request ''GET'' ''shop.example.com'' ''/x?y=1''"
  let ?reqc = "example_request ''GET'' ''shop.example.com'' ''/''"
  have a: "reaches_txt ?w ?host \<and> findTxtRecord ?w ?host = Inr (Some ?rd)
      \<and> absolute_url (txt_url ?rd)
      \<and> httpStatus_or_default ?rd \<in> set [''301'', ''302'', ''307'', ''308'']"
    by code_simp
  have b: "fst (buildCache example_env ?w policy_null ?host) = Inr ?c"
    "endsWith (txt_url ?rd) ''*''"
    by code_simp+
  have r: "fst (resolve example_env ?w ?s ?host) = Inr ?c"
    "fst (resolve example_env ?wc ?s ?host) = Inr ?cc"
    by code_simp+
  have h: "\<not> startsWith (orEmpty (req_url ?req)) acme_prefix \<and> request_host ?req \<noteq> []
        \<and> Some (request_host ?req) \<noteq> HOME_DOMAIN example_env"
    "\<not> startsWith (orEmpty (req_url ?reqc)) acme_prefix \<and> request_host ?reqc \<noteq> []
        \<and> Some (request_host ?reqc) \<noteq> HOME_DOMAIN example_env"
    "request_host ?req = ?host" "request_host ?reqc = ?host"
    by code_simp+
  have e: "\<not> blacklisted ?c \<and> httpStatus ?c \<in> {Some 301, Some 302, Some 307, Some 308}"
    "\<not> blacklisted ?cc \<and> httpStatus ?cc \<in> {Some 301, Some 302, Some 307, Some 308}"
    by simp_all
  have l: "(let loc = (if expand ?c then combineURLs (url ?c) (orEmpty (req_url ?req)) else url ?c)
           in if list_ex invalidHeaderChar loc
              then write_body (''Invalid character in header content ['' @ dq @ ''Location'' @ dq @ '']'')
                     (fresh_response\<lparr>statusCode := Some 400\<rparr>)
              else fresh_response\<lparr>statusCode := httpStatus ?c,
                     headers := headers fresh_response @ [(''Location'', loc)]\<rparr>)
       = \<lparr>statusCode = Some 301, headers = [(''Location'', ''https://dest.example/app/x?y=1'')],
          written = [], ended = False\<rparr>"
    "(let loc = (if expand ?cc then combineURLs (url ?cc) (orEmpty (req_url ?reqc)) else url ?cc)
           in if list_ex invalidHeaderChar loc
              then write_body (''Invalid character in header content ['' @ dq @ ''Location'' @ dq @ '']'')
                     (fresh_response\<lparr>statusCode := Some 400\<rparr>)
              else fresh_response\<lparr>statusCode := httpStatus ?cc,
                     headers := headers fresh_response @ [(''Location'', loc)]\<rparr>)
       = \<lparr>statusCode = Some 400, headers = [],
          written = [''Invalid character in header content ['' @ dq @ ''Location'' @ dq @ '']''],
          ended = False\<rparr>"
    by code_simp+
  obtain s1 where s1: "resolve example_env ?w ?s ?host = (Inr ?c, s1)"
    using r(1) by (cases "resolve example_env ?w ?s ?host") simp
  obtain s2 where s2: "resolve example_env ?wc ?s ?host = (Inr ?cc, s2)"
    using r(2) by (cases "resolve example_env ?wc ?s ?host") simp
  note t = wildcard_location [where env = example_env and w = ?w and st = policy_null
      and host = ?host and c = ?c and recordData = ?rd and req = ?req and s = ?s and s' = s1
      and res = fresh_response]
  note tc = wildcard_location [where env = example_env and w = ?wc and host = ?host and c = ?cc
      and req = ?reqc and s = ?s and s' = s2 and res = fresh_response]
  from t [THEN conjunct2, THEN conjunct1] a b
  have star: "expand ?c \<and> txt_url ?rd = url ?c @ ''*''" by blast
  from t [THEN conjunct2, THEN conjunct2, THEN conjunct1] s1 e(1)
  have f1: "fst (forward example_env ?w ?s ?req ?host fresh_response)
      = \<lparr>statusCode = Some 301, headers = [(''Location'', ''https://dest.example/app/x?y=1'')],
          written = [], ended = False\<rparr>"
    unfolding l(1) by simp
  from tc [THEN conjunct2, THEN conjunct2, THEN conjunct1] s2 e(2)
  have f2: "fst (forward example_env ?wc ?s ?reqc ?host fresh_response)
      = \<lparr>statusCode = Some 400, headers = [],
          written = [''Invalid character in header content ['' @ dq @ ''Location'' @ dq @ '']''],
          ended = False\<rparr>"
    unfolding l(2) by simp
  from t [THEN conjunct2, THEN conjunct2, THEN conjunct2, THEN conjunct1] h(1)
  have "listener example_env ?w ?s ?req
      = (case forward example_env ?w ?s ?req ?host fresh_response of
           (res', s') \<Rightarrow> (end_response res', s'))"
    unfolding h(3) by blast
  with f1 have l1: "fst (listener example_env ?w ?s ?req)
      = \<lparr>statusCode = Some 301, headers = [(''Location'', ''https://dest.example/app/x?y=1'')],
          written = [], ended = True\<rparr>"
    by (cases "forward example_env ?w ?s ?req ?host fresh_response") (simp add: end_response_def)
  from tc [THEN conjunct2, THEN conjunct2, THEN conjunct2, THEN conjunct1] h(2)
  have "listener example_env ?wc ?s ?reqc
      = (case forward example_env ?wc ?s ?reqc ?host fresh_response of
           (res', s') \<Rightarrow> (end_response res', s'))"
    unfolding h(4) by blast
  with f2 have l2: "fst (listener example_env ?wc ?s ?reqc)
      = \<lparr>statusCode = Some 400, headers = [],
          written = [''Invalid character in header content ['' @ dq @ ''Location'' @ dq @ '']''],
          ended = True\<rparr>"
    by (cases "forward example_env ?wc ?s ?reqc ?host fresh_response") (simp add: end_response_def)
  from b(1) star l1 l2 show ?thesis by simp
qed

subsection \<open>C5: the CAA authorization\<close>

text \<open>
  C5 as stated fails: \<open>validateCAARecords\<close> looks only at the issue records whose flags
  are \<open>0\<close> (data that starts with \<open>0 issue \<close>). An answer whose only issue record is
  \<open>128 issue "digicert.com"\<close> has an issue record and none that permits
  \<open>letsencrypt.org\<close>, and the code reports it authorized. An answer with
  \<open>0 issue "digicert.com"\<close> and \<open>128 issue "letsencrypt.org"\<close> has an issue record
  that permits \<open>letsencrypt.org\<close>, and the code returns the first record as
  disqualifying.
\<close>

theorem validateCAARecords_authorized_counterexample:
  "validateCAARecords
       (example_world (caa_answer [''128 issue '' @ dq @ ''digicert.com'' @ dq]) txt_302)
       ''shop.example.com''
     = Inr None
   \<and> \<not> authorized any_flags
          (Some [\<lparr>rr_type = 257, rr_data = ''128 issue '' @ dq @ ''digicert.com'' @ dq\<rparr>])
   \<and> validateCAARecords
         (example_world (caa_answer [''0 issue '' @ dq @ ''digicert.com'' @ dq,
                                      ''128 issue '' @ dq @ ''letsencrypt.org'' @ dq]) txt_302)
         ''shop.example.com''
     = Inr (Some [''0 issue '' @ dq @ ''digicert.com'' @ dq])
   \<and> authorized any_flags
        (Some [\<lparr>rr_type = 257, rr_data = ''0 issue '' @ dq @ ''digicert.com'' @ dq\<rparr>,
               \<lparr>rr_type = 257, rr_data = ''128 issue '' @ dq @ ''letsencrypt.org'' @ dq\<rparr>])"
  by code_simp

text \<open>
  C5, as the code has it. When the DNS collaborator answers the CAA query for the host,
  \<open>validateCAARecords\<close> returns \<open>null\<close> iff the answer has no \<open>Answer\<close> field, or has no
  issue record with the flags \<open>0\<close>, or one of these records permits \<open>letsencrypt.org\<close>:
  its value is that name, in lower case, with or without a pair of double quotes and
  with or without \<open>;validationmethods=http-01\<close>. Otherwise it returns the data of the
  issue records with the flags \<open>0\<close>, a list that is not empty and in which no record
  permits the issuer, and \<open>buildCache\<close> throws: the CAA message with the records, when the
  host passed the three checks before it. An error of the collaborator is passed on.
\<close>

theorem validateCAARecords_authorized:
  "(request w (''https://dns.google/resolve?name='' @ encodeURIComponent host @ ''&type=CAA'')
      = Inr Answer \<longrightarrow>
      (validateCAARecords w host = Inr None) = authorized flags_0 Answer
      \<and> (validateCAARecords w host \<noteq> Inr None \<longrightarrow>
           (\<exists>a. Answer = Some a
              \<and> validateCAARecords w host = Inr (Some (map rr_data (issue_records flags_0 a)))
              \<and> issue_records flags_0 a \<noteq> []
              \<and> (\<forall>x\<in>set (issue_records flags_0 a). \<not> permits x)
              \<and> (\<exists>e. buildCache env w st host = (Inl e, st))
              \<and> (\<not> isIpAddress w host \<and> \<not> isExceedHostLimit host \<and> \<not> isExceedLabelLimit host \<longrightarrow>
                   buildCache env w st host =
                     (Inl (Error (''CAA record is not '' @ dq @ ''letsencrypt.org'' @ dq
                            @ ''. Records found: ''
                            @ join '','' (map rr_data (issue_records flags_0 a)) @ ''.'')), st)))))
   \<and> (request w (''https://dns.google/resolve?name='' @ encodeURIComponent host @ ''&type=CAA'')
        = Inl e \<longrightarrow> validateCAARecords w host = Inl e)
   \<and> (x \<in> set (issue_records flags_0 a) \<longleftrightarrow>
        x \<in> set a \<and> rr_type x = 257 \<and> (\<exists>v. rr_data x = ''0 issue '' @ v))
   \<and> (x \<in> set (issue_records flags_0 a) \<longrightarrow>
        permits x =
          (rr_data x \<in> {''0 issue letsencrypt.org'',
                         ''0 issue '' @ dq @ ''letsencrypt.org'' @ dq,
                         ''0 issue letsencrypt.org;validationmethods=http-01'',
                         ''0 issue '' @ dq @ ''letsencrypt.org;validationmethods=http-01'' @ dq}))"
proof (intro conjI impI)
  assume r: "request w (''https://dns.google/resolve?name='' @ encodeURIComponent host @ ''&type=CAA'')
      = Inr Answer"
  note v = validateCAARecords_authorized_iff [OF r]
  show iff: "(validateCAARecords w host = Inr None) = authorized flags_0 Answer"
    unfolding v by simp
  assume n: "validateCAARecords w host \<noteq> Inr None"
  with iff have na: "\<not> authorized flags_0 Answer" by simp
  then obtain a where a: "Answer = Some a" by (cases Answer) (auto simp: authorized_def)
  with na have i: "issue_records flags_0 a \<noteq> []" "\<forall>x\<in>set (issue_records flags_0 a). \<not> permits x"
    by (auto simp: authorized_def list_ex_iff)
  from v na a have val: "validateCAARecords w host = Inr (Some (map rr_data (issue_records flags_0 a)))"
    by simp
  from buildCache_caa_rejects [OF val, of env st] a i val
  show "\<exists>a. Answer = Some a
              \<and> validateCAARecords w host = Inr (Some (map rr_data (issue_records flags_0 a)))
              \<and> issue_records flags_0 a \<noteq> []
              \<and> (\<forall>x\<in>set (issue_records flags_0 a). \<not> permits x)
              \<and> (\<exists>e. buildCache env w st host = (Inl e, st))
              \<and> (\<not> isIpAddress w host \<and> \<not> isExceedHostLimit host \<and> \<not> isExceedLabelLimit host \<longrightarrow>
                   buildCache env w st host =
                     (Inl (Error (''CAA record is not '' @ dq @ ''letsencrypt.org'' @ dq
                            @ ''. Records found: ''
                            @ join '','' (map rr_data (issue_records flags_0 a)) @ ''.'')), st))"
    by blast
next
  assume "request w (''https://dns.google/resolve?name='' @ encodeURIComponent host @ ''&type=CAA'')
        = Inl e"
  then show "validateCAARecords w host = Inl e" by (simp add: validateCAARecords_def)
next
  have "(case caa_fields d of None \<Rightarrow> False
         | Some (flags, tag, val) \<Rightarrow> tag = ''issue'' \<and> flags_0 flags)
        = (\<exists>v. d = ''0 issue '' @ v)" for d
  proof -
    have "\<exists>v. d = ''0 issue '' @ v" if "startsWith d ''0 issue ''"
      using startsWith_append [OF that] by blast
    moreover have "startsWith (''0 issue '' @ v) ''0 issue ''" for v
      by (simp add: startsWith_def)
    ultimately show ?thesis unfolding caa_fields_flags_0 by blast
  qed
  then show "x \<in> set (issue_records flags_0 a) \<longleftrightarrow>
        x \<in> set a \<and> rr_type x = 257 \<and> (\<exists>v. rr_data x = ''0 issue '' @ v)"
    by (auto simp: issue_records_def)
next
  assume "x \<in> set (issue_records flags_0 a)"
  from caaRegex_test_permits [OF this]
  show "permits x =
          (rr_data x \<in> {''0 issue letsencrypt.org'',
                         ''0 issue '' @ dq @ ''letsencrypt.org'' @ dq,
                         ''0 issue letsencrypt.org;validationmethods=http-01'',
                         ''0 issue '' @ dq @ ''letsencrypt.org;validationmethods=http-01'' @ dq})"
    by (simp add: caaRegex_test_strings)
qed

text \<open>
  The theorem at \<open>shop.example.com\<close>: an answer whose only issue record names another
  authority is returned as disqualifying and \<open>buildCache\<close> throws the CAA message; an
  answer that also has the quoted \<open>letsencrypt.org\<close> record is authorized, and so is
  one whose only issue record has the flags 128.
\<close>

theorem validateCAARecords_authorized_witness:
  "validateCAARecords (example_world (caa_answer [''0 issue '' @ dq @ ''digicert.com'' @ dq]) txt_302)
       ''shop.example.com''
     = Inr (Some [''0 issue '' @ dq @ ''digicert.com'' @ dq])
   \<and> buildCache example_env
         (example_world (caa_answer [''0 issue '' @ dq @ ''digicert.com'' @ dq]) txt_302)
         policy_null ''shop.example.com''
     = (Inl (Error (''CAA record is not '' @ dq @ ''letsencrypt.org'' @ dq
              @ ''. Records found: 0 issue '' @ dq @ ''digicert.com'' @ dq @ ''.'')), policy_null)
   \<and> validateCAARecords
         (example_world (caa_answer [''0 issue '' @ dq @ ''digicert.com'' @ dq,
                                      ''0 issue '' @ dq @ ''letsencrypt.org'' @ dq]) txt_302)
         ''shop.example.com''
     = Inr None
   \<and> validateCAARecords
         (example_world (caa_answer [''128 issue '' @ dq @ ''digicert.com'' @ dq]) txt_302)
         ''shop.example.com''
     = Inr None"
proof -
  let ?bad = "[''0 issue '' @ dq @ ''digicert.com'' @ dq]"
  let ?good = "[''0 issue '' @ dq @ ''digicert.com'' @ dq, ''0 issue '' @ dq @ ''letsencrypt.org'' @ dq]"
  let ?crit = "[''128 issue '' @ dq @ ''digicert.com'' @ dq]"
  let ?host = "''shop.example.com''"
  let ?url = "''https://dns.google/resolve?name='' @ encodeURIComponent ?host @ ''&type=CAA''"
  let ?ans = "\<lambda>ds. map (\<lambda>d. \<lparr>rr_type = 257, rr_data = d\<rparr>) ds"
  have r: "request (example_world (caa_answer ?bad) txt_302) ?url = Inr (Some (?ans ?bad))"
    "request (example_world (caa_answer ?good) txt_302) ?url = Inr (Some (?ans ?good))"
    "request (example_world (caa_answer ?crit) txt_302) ?url = Inr (Some (?ans ?crit))"
    by code_simp+
  have e: "map rr_data (issue_records flags_0 (?ans ?bad)) = ?bad"
    "\<not> authorized flags_0 (Some (?ans ?bad))" "authorized flags_0 (Some (?ans ?good))"
    "authorized flags_0 (Some (?ans ?crit))"
    "\<not> isIpAddress (example_world (caa_answer ?bad) txt_302) ?host"
    "\<not> isExceedHostLimit ?host" "\<not> isExceedLabelLimit ?host"
    "join '','' ?bad = ''0 issue '' @ dq @ ''digicert.com'' @ dq"
    by code_simp+
  note t1 = validateCAARecords_authorized [where w = "example_world (caa_answer ?bad) txt_302"
      and host = ?host and Answer = "Some (?ans ?bad)" and env = example_env and st = policy_null,
      THEN conjunct1, THEN mp, OF r(1)]
  note t2 = validateCAARecords_authorized [where w = "example_world (caa_answer ?good) txt_302"
      and host = ?host and Answer = "Some (?ans ?good)" and env = example_env and st = policy_null,
      THEN conjunct1, THEN mp, OF r(2)]
  note t3 = validateCAARecords_authorized [where w = "example_world (caa_answer ?crit) txt_302"
      and host = ?host and Answer = "Some (?ans ?crit)" and env = example_env and st = policy_null,
      THEN conjunct1, THEN mp, OF r(3)]
  from t1 [THEN conjunct1] e(2)
  have n: "validateCAARecords (example_world (caa_answer ?bad) txt_302) ?host \<noteq> Inr None"
    by simp
  from t1 [THEN conjunct2, THEN mp, OF n] e(1)
  have "validateCAARecords (example_world (caa_answer ?bad) txt_302) ?host = Inr (Some ?bad)"
    by auto
  moreover from t1 [THEN conjunct2, THEN mp, OF n] e(1,5,6,7)
  have "buildCache example_env (example_world (caa_answer ?bad) txt_302) policy_null ?host
     = (Inl (Error (''CAA record is not '' @ dq @ ''letsencrypt.org'' @ dq
              @ ''. Records found: '' @ join '','' ?bad @ ''.'')), policy_null)"
    by auto
  moreover from t2 [THEN conjunct1] e(3)
  have "validateCAARecords (example_world (caa_answer ?good) txt_302) ?host = Inr None"
    by simp
  moreover from t3 [THEN conjunct1] e(4)
  have "validateCAARecords (example_world (caa_answer ?crit) txt_302) ?host = Inr None"
    by simp
  ultimately show ?thesis using e(8) by simp
qed

subsection \<open>C6: the TXT lookup and its parse\<close>

text \<open>
  C6. \<open>findTxtRecord\<close> asks the DNS collaborator for the TXT records of \<open>_.\<close> followed by
  the host (URI-encoded, which leaves a host of letters, digits, dots and hyphens as it
  is). Without an \<open>Answer\<close> field, or when no record of the answer qualifies, it returns
  \<open>null\<close>, and \<open>buildCache\<close> then throws the "missing" error for a host that came this
  far. A record qualifies when its type is 16 and its parse has a \<open>forward-domain\<close> value
  that is not empty. Otherwise the result is read from the first qualifying record and
  keeps two fields only: its \<open>forward-domain\<close> and its \<open>http-status\<close> value. The parse of
  a record splits it at the semicolons; a segment with a \<open>=\<close> and a key before it that is
  not empty stores, under that key, all that follows the first \<open>=\<close>; the last such
  segment of a key wins, and any other key does not change what the two fields read.
\<close>

theorem findTxtRecord_parse:
  "findTxtRecord w host =
     (case request w (''https://dns.google/resolve?name=_.'' @ encodeURIComponent host @ ''&type=TXT'') of
        Inl e \<Rightarrow> Inl e
      | Inr None \<Rightarrow> Inr None
      | Inr (Some Answer) \<Rightarrow>
          (case find qualifies Answer of
             None \<Rightarrow> Inr None
           | Some r \<Rightarrow>
               Inr (Some \<lparr>txt_url = orEmpty (parseTxtRecordData (rr_data r) ''forward-domain''),
                          txt_httpStatus = parseTxtRecordData (rr_data r) ''http-status''\<rparr>)))
   \<and> ((\<forall>c\<in>set host. isUnreserved c) \<longrightarrow> encodeURIComponent host = host)
   \<and> (reaches_txt w host \<and> findTxtRecord w host = Inr None \<longrightarrow>
        buildCache env w st host =
          (Inl (Error (''The TXT record data for '' @ dq @ ''_.'' @ host @ dq @ '' is missing'')), st))
   \<and> (key \<noteq> [] \<longrightarrow>
        parseTxtRecordData val key =
          (case find (\<lambda>seg. CHR ''='' \<in> set seg \<and> takeWhile (\<lambda>c. c \<noteq> CHR ''='') seg = key)
                  (rev (split_on (CHR '';'') val)) of
             None \<Rightarrow> None
           | Some seg \<Rightarrow> Some (drop (length key + 1) seg)))"
proof (intro conjI impI)
  show "findTxtRecord w host =
     (case request w (''https://dns.google/resolve?name=_.'' @ encodeURIComponent host @ ''&type=TXT'') of
        Inl e \<Rightarrow> Inl e
      | Inr None \<Rightarrow> Inr None
      | Inr (Some Answer) \<Rightarrow>
          (case find qualifies Answer of
             None \<Rightarrow> Inr None
           | Some r \<Rightarrow>
               Inr (Some \<lparr>txt_url = orEmpty (parseTxtRecordData (rr_data r) ''forward-domain''),
                          txt_httpStatus = parseTxtRecordData (rr_data r) ''http-status''\<rparr>)))"
    unfolding findTxtRecord_def findTxt_loop_find by (simp split: sum.splits option.splits)
next
  assume "\<forall>c\<in>set host. isUnreserved c"
  then show "encodeURIComponent host = host" by (rule encodeURIComponent_unreserved)
next
  assume "reaches_txt w host \<and> findTxtRecord w host = Inr None"
  then show "buildCache env w st host =
          (Inl (Error (''The TXT record data for '' @ dq @ ''_.'' @ host @ dq @ '' is missing'')), st)"
    by (simp add: buildCache_txt_missing)
next
  assume "key \<noteq> []"
  then show "parseTxtRecordData val key =
          (case find (\<lambda>seg. CHR ''='' \<in> set seg \<and> takeWhile (\<lambda>c. c \<noteq> CHR ''='') seg = key)
                  (rev (split_on (CHR '';'') val)) of
             None \<Rightarrow> None
           | Some seg \<Rightarrow> Some (drop (length key + 1) seg))"
    by (rule parseTxtRecordData_apply)
qed

text \<open>
  The theorem at \<open>shop.example.com\<close>: of four TXT records, an SPF record and a record with
  an empty \<open>forward-domain\<close> are passed over, and the third gives the URL, which contains
  a \<open>=\<close>, and the status; the key \<open>x\<close> is ignored. With the SPF record alone the lookup
  returns \<open>null\<close> and \<open>buildCache\<close> throws.
\<close>

theorem findTxtRecord_parse_witness:
  "encodeURIComponent ''shop.example.com'' = ''shop.example.com''
   \<and> findTxtRecord (example_world (Inr None) txt_answers) ''shop.example.com''
       = Inr (Some \<lparr>txt_url = ''https://dest.example/?a=b'', txt_httpStatus = Some ''302''\<rparr>)
   \<and> parseTxtRecordData ''x=y;forward-domain=https://dest.example/?a=b;http-status=302''
         ''forward-domain'' = Some ''https://dest.example/?a=b''
   \<and> buildCache example_env (example_world (Inr None) txt_spf_only) policy_null ''shop.example.com''
       = (Inl (Error (''The TXT record data for '' @ dq @ ''_.shop.example.com'' @ dq @ '' is missing'')),
          policy_null)"
proof -
  let ?host = "''shop.example.com''"
  let ?w = "example_world (Inr None) txt_answers"
  let ?w' = "example_world (Inr None) txt_spf_only"
  let ?d = "''x=y;forward-domain=https://dest.example/?a=b;http-status=302''"
  let ?r = "\<lparr>rr_type = 16, rr_data = ?d\<rparr>"
  let ?Answer = "[\<lparr>rr_type = 16, rr_data = ''v=spf1 -all''\<rparr>,
                \<lparr>rr_type = 16, rr_data = ''forward-domain=''\<rparr>, ?r,
                \<lparr>rr_type = 16, rr_data = ''forward-domain=https://other.example''\<rparr>]"
  have u: "\<forall>c\<in>set ?host. isUnreserved c" by code_simp
  note t = findTxtRecord_parse [where w = ?w and host = ?host]
  note t' = findTxtRecord_parse [where w = ?w' and host = ?host and env = example_env
      and st = policy_null]
  note tp = findTxtRecord_parse [where val = ?d and key = "''forward-domain''"]
  from t u have e: "encodeURIComponent ?host = ?host" by blast
  have r: "request ?w (''https://dns.google/resolve?name=_.'' @ ?host @ ''&type=TXT'') = Inr (Some ?Answer)"
    "request ?w' (''https://dns.google/resolve?name=_.'' @ ?host @ ''&type=TXT'')
       = Inr (Some [\<lparr>rr_type = 16, rr_data = ''v=spf1 -all''\<rparr>])"
    by code_simp+
  have q: "find qualifies ?Answer = Some ?r"
    "find qualifies [\<lparr>rr_type = 16, rr_data = ''v=spf1 -all''\<rparr>] = None"
    "orEmpty (parseTxtRecordData ?d ''forward-domain'') = ''https://dest.example/?a=b''"
    "parseTxtRecordData ?d ''http-status'' = Some ''302''"
    "reaches_txt ?w' ?host"
    by code_simp+
  have p: "(case find (\<lambda>seg. CHR ''='' \<in> set seg \<and> takeWhile (\<lambda>c. c \<noteq> CHR ''='') seg = ''forward-domain'')
                  (rev (split_on (CHR '';'') ?d)) of
             None \<Rightarrow> None
           | Some seg \<Rightarrow> Some (drop (length ''forward-domain'' + 1) seg))
        = Some ''https://dest.example/?a=b''"
    by code_simp
  have "findTxtRecord ?w ?host
       = Inr (Some \<lparr>txt_url = ''https://dest.example/?a=b'', txt_httpStatus = Some ''302''\<rparr>)"
    by (subst t [THEN conjunct1]) (simp only: e r(1) q sum.case option.case answer.select_convs)
  moreover from tp p
  have "parseTxtRecordData ?d ''forward-domain'' = Some ''https://dest.example/?a=b''"
    by simp
  moreover have "findTxtRecord ?w' ?host = Inr None"
    by (subst t' [THEN conjunct1]) (simp only: e r(2) q sum.case option.case answer.select_convs)
  with t' q(5)
  have "buildCache example_env ?w' policy_null ?host
       = (Inl (Error (''The TXT record data for '' @ dq @ ''_.'' @ ?host @ dq @ '' is missing'')),
          policy_null)"
    by blast
  ultimately show ?thesis using e by simp
qed

subsection \<open>C7: a stale entry is never served\<close>

text \<open>
  C7 as stated fails where it has every miss overwrite the slot: with an expired
  decision for \<open>shop.example.com\<close> in the cache and a TXT answer that has no
  \<open>forward-domain\<close> record, \<open>buildCache\<close> throws, the request is answered 400 by the
  \<open>catch\<close> block, and the expired decision is still in the cache.
\<close>

theorem stale_entry_rebuilt_counterexample:
  "fresh_entry (example_world (Inr None) txt_spf_only)
       (map_of [(''shop.example.com'', old_entry 500)] ''shop.example.com'') = None
   \<and> fst (listener example_env (example_world (Inr None) txt_spf_only)
           (example_state [(''shop.example.com'', old_entry 500)])
           (example_request ''GET'' ''shop.example.com'' ''/''))
       = \<lparr>statusCode = Some 400, headers = [],
          written = [''The TXT record data for '' @ dq @ ''_.shop.example.com'' @ dq @ '' is missing''],
          ended = True\<rparr>
   \<and> resolveCache (snd (listener example_env (example_world (Inr None) txt_spf_only)
           (example_state [(''shop.example.com'', old_entry 500)])
           (example_request ''GET'' ''shop.example.com'' ''/'')))
       = [(''shop.example.com'', old_entry 500)]"
  by code_simp

text \<open>
  C7, as the code has it. The lookup serves the cached decision only when the cache
  holds an entry for the host that is a decision, not the empty value of /flushcache,
  and the clock is not beyond its \<open>expire\<close> (\<open>fresh_entry\<close>). In every other case (no
  entry, the empty value, or \<open>Date.now() > expire\<close>) the result of the lookup is the
  result of \<open>buildCache\<close> for the host: when it succeeds, the new decision is stored
  under the host and the response is written from it; when it throws, the cache maps
  every host to what it did before and the response is the one of the \<open>catch\<close> block. So
  the response is never written from an expired entry. A request outside the ACME
  prefix and the control-plane domain, with a host, is answered this way.
\<close>

theorem stale_entry_rebuilt:
  "(fresh_entry w v = None) =
      (v = None \<or> v = Some Sentinel \<or> (\<exists>c. v = Some (Entry c) \<and> now_lookup w > expire c))
   \<and> (fresh_entry w (map_of (resolveCache s) host) = None \<longrightarrow>
        resolve env w s host
          = (case buildCache env w (policy s) host of
               (Inl e, st') \<Rightarrow>
                 (Inl e, \<lparr>policy = st', resolveCache = snd (lru_get host (resolveCache s))\<rparr>)
             | (Inr c', st') \<Rightarrow>
                 (Inr c', \<lparr>policy = st',
                           resolveCache = lru_set host (Entry c') (snd (lru_get host (resolveCache s)))\<rparr>))
        \<and> (\<forall>c' s'. resolve env w s host = (Inr c', s') \<longrightarrow>
              fst (buildCache env w (policy s) host) = Inr c'
              \<and> map_of (resolveCache s') host = Some (Entry c')
              \<and> forward env w s req host res
                   = (try_catch (respond (policy s') req c' res) id, s'))
        \<and> (\<forall>e s'. resolve env w s host = (Inl e, s') \<longrightarrow>
              fst (buildCache env w (policy s) host) = Inl e
              \<and> map_of (resolveCache s') = map_of (resolveCache s)
              \<and> forward env w s req host res = (catch_error e res, s')))
   \<and> (fresh_entry w (map_of (resolveCache s) host) = Some c \<longrightarrow>
        map_of (resolveCache s) host = Some (Entry c) \<and> \<not> now_lookup w > expire c
        \<and> fst (resolve env w s host) = Inr c)
   \<and> (\<not> startsWith (orEmpty (req_url req)) acme_prefix \<and> request_host req \<noteq> []
        \<and> Some (request_host req) \<noteq> HOME_DOMAIN env \<longrightarrow>
        listener env w s req
          = (case forward env w s req (request_host req) fresh_response of
               (res', s') \<Rightarrow> (end_response res', s')))"
proof (intro conjI impI allI)
  show "(fresh_entry w v = None) =
      (v = None \<or> v = Some Sentinel \<or> (\<exists>c. v = Some (Entry c) \<and> now_lookup w > expire c))"
    by (rule fresh_entry_None)
next
  assume f: "fresh_entry w (map_of (resolveCache s) host) = None"
  show "resolve env w s host
          = (case buildCache env w (policy s) host of
               (Inl e, st') \<Rightarrow>
                 (Inl e, \<lparr>policy = st', resolveCache = snd (lru_get host (resolveCache s))\<rparr>)
             | (Inr c', st') \<Rightarrow>
                 (Inr c', \<lparr>policy = st',
                           resolveCache = lru_set host (Entry c') (snd (lru_get host (resolveCache s)))\<rparr>))"
    by (rule resolve_build [OF f])
  {
    fix c' s' assume r: "resolve env w s host = (Inr c', s')"
    from resolve_build_Inr [OF f r]
    show "fst (buildCache env w (policy s) host) = Inr c'"
      and "map_of (resolveCache s') host = Some (Entry c')" by simp_all
    from r show "forward env w s req host res
                   = (try_catch (respond (policy s') req c' res) id, s')"
      by (rule forward_Inr)
  }
  {
    fix e s' assume r: "resolve env w s host = (Inl e, s')"
    from resolve_build_Inl [OF f r]
    show "fst (buildCache env w (policy s) host) = Inl e"
      and "map_of (resolveCache s') = map_of (resolveCache s)" by simp_all
    from r show "forward env w s req host res = (catch_error e res, s')"
      by (rule forward_Inl)
  }
next
  assume f: "fresh_entry w (map_of (resolveCache s) host) = Some c"
  then show "map_of (resolveCache s) host = Some (Entry c)" and "\<not> now_lookup w > expire c"
    by (simp_all add: fresh_entry_Some)
  from resolve_fresh [OF f] show "fst (resolve env w s host) = Inr c" by simp
next
  assume "\<not> startsWith (orEmpty (req_url req)) acme_prefix \<and> request_host req \<noteq> []
        \<and> Some (request_host req) \<noteq> HOME_DOMAIN env"
  then show "listener env w s req
          = (case forward env w s req (request_host req) fresh_response of
               (res', s') \<Rightarrow> (end_response res', s'))"
    by (simp add: listener_def dispatch_forward)
qed

text \<open>
  The theorem at \<open>shop.example.com\<close>, with a cached decision for \<open>https://old.example\<close>
  that expired at 500 and the clock at 1000: the decision is rebuilt from the TXT record,
  stored, and the response is the 302 to \<open>https://dest.example/app\<close>.
\<close>

theorem stale_entry_rebuilt_witness:
  "fresh_entry (example_world (Inr None) txt_302)
       (map_of (resolveCache (example_state [(''shop.example.com'', old_entry 500)]))
          ''shop.example.com'') = None
   \<and> fst (resolve example_env (example_world (Inr None) txt_302)
           (example_state [(''shop.example.com'', old_entry 500)]) ''shop.example.com'')
       = Inr \<lparr>url = ''https://dest.example/app'', expand = False, blacklisted = False,
              expire = 86401000, httpStatus = Some 302\<rparr>
   \<and> map_of (resolveCache (snd (resolve example_env (example_world (Inr None) txt_302)
           (example_state [(''shop.example.com'', old_entry 500)]) ''shop.example.com'')))
         ''shop.example.com''
       = Some (Entry \<lparr>url = ''https://dest.example/app'', expand = False, blacklisted = False,
                      expire = 86401000, httpStatus = Some 302\<rparr>)
   \<and> fst (listener example_env (example_world (Inr None) txt_302)
           (example_state [(''shop.example.com'', old_entry 500)])
           (example_request ''GET'' ''shop.example.com'' ''/''))
       = \<lparr>statusCode = Some 302, headers = [(''Location'', ''https://dest.example/app'')],
          written = [], ended = True\<rparr>"
proof -
  let ?w = "example_world (Inr None) txt_302"
  let ?s = "example_state [(''shop.example.com'', old_entry 500)]"
  let ?host = "''shop.example.com''"
  let ?req = "example_request ''GET'' ''shop.example.com'' ''/''"
  let ?c = "\<lparr>url = ''https://dest.example/app'', expand = False, blacklisted = False,
              expire = 86401000, httpStatus = Some 302\<rparr>"
  note t = stale_entry_rebuilt [where w = ?w and s = ?s and host = ?host and env = example_env
      and req = ?req and res = fresh_response]
  have f: "fresh_entry ?w (map_of (resolveCache ?s) ?host) = None" by code_simp
  have b: "fst (buildCache example_env ?w (policy ?s) ?host) = Inr ?c" by code_simp
  have h: "\<not> startsWith (orEmpty (req_url ?req)) acme_prefix" "request_host ?req \<noteq> []"
    "Some (request_host ?req) \<noteq> HOME_DOMAIN example_env" "request_host ?req = ?host"
    by code_simp+
  note u = t [THEN conjunct2, THEN conjunct1, THEN mp, OF f]
  note uInr = u [THEN conjunct2, THEN conjunct1, rule_format]
  note uInl = u [THEN conjunct2, THEN conjunct2, rule_format]
  obtain r s' where r: "resolve example_env ?w ?s ?host = (r, s')"
    by (cases "resolve example_env ?w ?s ?host")
  have rc: "r = Inr ?c"
  proof (cases r)
    case (Inl e)
    with r have "resolve example_env ?w ?s ?host = (Inl e, s')" by simp
    from uInl [OF this] b show ?thesis by simp
  next
    case (Inr c')
    with r have "resolve example_env ?w ?s ?host = (Inr c', s')" by simp
    from uInr [OF this] b Inr show ?thesis by simp
  qed
  with r have r': "resolve example_env ?w ?s ?host = (Inr ?c, s')" by simp
  from uInr [OF r'] have m: "map_of (resolveCache s') ?host = Some (Entry ?c)"
    and fw: "forward example_env ?w ?s ?req ?host fresh_response
               = (try_catch (respond (policy s') ?req ?c fresh_response) id, s')"
    by simp_all
  have rs: "try_catch (respond (policy s') ?req ?c fresh_response) id
      = \<lparr>statusCode = Some 302, headers = [(''Location'', ''https://dest.example/app'')],
          written = [], ended = False\<rparr>"
    by (simp add: respond_def writeHead_def toInt32_def invalidHeaderChar_def try_catch_def
        fresh_response_def)
  from t [THEN conjunct2, THEN conjunct2, THEN conjunct2, THEN mp] h(1-3)
  have "listener example_env ?w ?s ?req
      = (case forward example_env ?w ?s ?req (request_host ?req) fresh_response of
           (res', s') \<Rightarrow> (end_response res', s'))"
    by blast
  then have l: "listener example_env ?w ?s ?req
      = (case forward example_env ?w ?s ?req ?host fresh_response of
           (res', s') \<Rightarrow> (end_response res', s'))"
    unfolding h(4) .
  have "fst (listener example_env ?w ?s ?req)
      = \<lparr>statusCode = Some 302, headers = [(''Location'', ''https://dest.example/app'')],
          written = [], ended = True\<rparr>"
    unfolding l fw rs by (simp add: end_response_def)
  with f r' m show ?thesis by simp
qed

subsection \<open>C8: a failed validation is not cached\<close>

text \<open>
  C8. When the lookup has to build and \<open>buildCache\<close> throws, nothing is stored: the cache
  maps every host to what it did before (the lookup may only have made the entry it read
  the most recent one; with no entry for the host the state is the same), and the module
  state of util.js is unchanged. So the next
  lookup of that host, at the same or a later time, builds again. The response is the one
  of the \<open>catch\<close> block: 400 with the message when the thrown value has a message that is
  not empty, 500 with \<open>Unknown error\<close> when it has none. Every error that \<open>buildCache\<close>
  makes itself has a message; one without can only come from the DNS collaborator.
\<close>

theorem failure_not_cached:
  "(fresh_entry w (map_of (resolveCache s) host) = None
      \<and> fst (buildCache env w (policy s) host) = Inl e \<longrightarrow>
      (\<exists>s'. resolve env w s host = (Inl e, s')
         \<and> map_of (resolveCache s') = map_of (resolveCache s) \<and> policy s' = policy s
         \<and> (map_of (resolveCache s) host = None \<longrightarrow> s' = s)
         \<and> forward env w s req host res = (catch_error e res, s')
         \<and> (\<forall>w'. now_lookup w \<le> now_lookup w' \<longrightarrow>
               resolve env w' s' host
                 = (case buildCache env w' (policy s') host of
                      (Inl e', st') \<Rightarrow>
                        (Inl e', \<lparr>policy = st', resolveCache = snd (lru_get host (resolveCache s'))\<rparr>)
                    | (Inr c', st') \<Rightarrow>
                        (Inr c', \<lparr>policy = st',
                                  resolveCache = lru_set host (Entry c')
                                                   (snd (lru_get host (resolveCache s')))\<rparr>)))))
   \<and> (message e = Some m \<and> m \<noteq> [] \<longrightarrow>
        statusCode (catch_error e res) = Some 400
        \<and> written (catch_error e res) = written res @ [m])
   \<and> (message e = None \<or> message e = Some [] \<longrightarrow>
        statusCode (catch_error e res) = Some 500
        \<and> written (catch_error e res) = written res @ [''Unknown error''])
   \<and> (fst (buildCache env w st host) = Inl e \<longrightarrow>
        truthy (message e) \<or> (\<exists>u. request w u = Inl e))"
proof (intro conjI impI)
  assume a: "fresh_entry w (map_of (resolveCache s) host) = None
      \<and> fst (buildCache env w (policy s) host) = Inl e"
  let ?s' = "\<lparr>policy = policy s, resolveCache = snd (lru_get host (resolveCache s))\<rparr>"
  from a have r: "resolve env w s host = (Inl e, ?s')" by (simp add: resolve_build_fails)
  have m: "map_of (resolveCache ?s') = map_of (resolveCache s)" by (simp add: lru_get_map_of)
  have same: "map_of (resolveCache s) host = None \<longrightarrow> ?s' = s"
    by (simp add: lru_get_absent)
  have again: "resolve env w' ?s' host
                 = (case buildCache env w' (policy ?s') host of
                      (Inl e', st') \<Rightarrow>
                        (Inl e', \<lparr>policy = st', resolveCache = snd (lru_get host (resolveCache ?s'))\<rparr>)
                    | (Inr c', st') \<Rightarrow>
                        (Inr c', \<lparr>policy = st',
                                  resolveCache = lru_set host (Entry c')
                                                   (snd (lru_get host (resolveCache ?s')))\<rparr>))"
    if "now_lookup w \<le> now_lookup w'" for w'
  proof -
    from a that have "fresh_entry w' (map_of (resolveCache s) host) = None"
      by (blast intro: fresh_entry_later)
    then have "fresh_entry w' (map_of (resolveCache ?s') host) = None" by (simp only: m)
    then show ?thesis by (rule resolve_build)
  qed
  from r m same again forward_Inl [OF r, of req res]
  show "\<exists>s'. resolve env w s host = (Inl e, s')
         \<and> map_of (resolveCache s') = map_of (resolveCache s) \<and> policy s' = policy s
         \<and> (map_of (resolveCache s) host = None \<longrightarrow> s' = s)
         \<and> forward env w s req host res = (catch_error e res, s')
         \<and> (\<forall>w'. now_lookup w \<le> now_lookup w' \<longrightarrow>
               resolve env w' s' host
                 = (case buildCache env w' (policy s') host of
                      (Inl e', st') \<Rightarrow>
                        (Inl e', \<lparr>policy = st', resolveCache = snd (lru_get host (resolveCache s'))\<rparr>)
                    | (Inr c', st') \<Rightarrow>
                        (Inr c', \<lparr>policy = st',
                                  resolveCache = lru_set host (Entry c')
                                                   (snd (lru_get host (resolveCache s')))\<rparr>)))"
    by (intro exI [of _ ?s']) simp
next
  assume "message e = Some m \<and> m \<noteq> []"
  then show "statusCode (catch_error e res) = Some 400"
    and "written (catch_error e res) = written res @ [m]"
    by (simp_all add: catch_error_message)
next
  assume "message e = None \<or> message e = Some []"
  from catch_error_no_message [OF this]
  show "statusCode (catch_error e res) = Some 500"
    and "written (catch_error e res) = written res @ [''Unknown error'']"
    by simp_all
next
  assume "fst (buildCache env w st host) = Inl e"
  then show "truthy (message e) \<or> (\<exists>u. request w u = Inl e)"
    by (rule buildCache_error_source)
qed

text \<open>
  The theorem at \<open>shop.example.com\<close> with an empty cache, when the CAA query throws a
  value without a message: the lookup fails, the cache still has no entry, and the
  response is 500 \<open>Unknown error\<close>. For the host \<open>192.0.2.1\<close> the error of
  \<open>buildCache\<close> has a message and the response is 400 with it.
\<close>

theorem failure_not_cached_witness:
  "(\<exists>s'. resolve example_env (example_world (Inl NoMessage) txt_302) (example_state [])
           ''shop.example.com'' = (Inl NoMessage, s')
        \<and> map_of (resolveCache s') ''shop.example.com'' = None
        \<and> forward example_env (example_world (Inl NoMessage) txt_302) (example_state [])
              (example_request ''GET'' ''shop.example.com'' ''/'') ''shop.example.com''
              fresh_response
            = (\<lparr>statusCode = Some 500, headers = [], written = [''Unknown error''],
                ended = False\<rparr>, s'))
   \<and> fst (buildCache example_env (example_world (Inr None) txt_302) policy_null ''192.0.2.1'')
       = Inl (Error ''unable to serve with direct IP address'')
   \<and> catch_error (Error ''unable to serve with direct IP address'') fresh_response
       = \<lparr>statusCode = Some 400, headers = [],
          written = [''unable to serve with direct IP address''], ended = False\<rparr>"
proof -
  let ?w = "example_world (Inl NoMessage) txt_302"
  let ?s = "example_state []"
  let ?host = "''shop.example.com''"
  let ?req = "example_request ''GET'' ''shop.example.com'' ''/''"
  let ?ip = "Error ''unable to serve with direct IP address''"
  note t = failure_not_cached [where w = ?w and s = ?s and host = ?host and env = example_env
      and req = ?req and res = fresh_response and e = NoMessage]
  note t' = failure_not_cached [where e = ?ip and res = fresh_response
      and m = "''unable to serve with direct IP address''"]
  have f: "fresh_entry ?w (map_of (resolveCache ?s) ?host) = None"
    "fst (buildCache example_env ?w (policy ?s) ?host) = Inl NoMessage"
    "map_of (resolveCache ?s) ?host = None"
    by code_simp+
  have ip: "fst (buildCache example_env (example_world (Inr None) txt_302) policy_null ''192.0.2.1'')
       = Inl ?ip"
    by code_simp
  have c: "headers (catch_error e fresh_response) = []" "\<not> ended (catch_error e fresh_response)" for e
    by (simp_all add: catch_error_def writeHead_def write_body_def fresh_response_def)
  have w0: "written fresh_response = []" by (simp add: fresh_response_def)
  from t [THEN conjunct1, THEN mp] f(1,2) obtain s' where
    s': "resolve example_env ?w ?s ?host = (Inl NoMessage, s')"
      "map_of (resolveCache s') = map_of (resolveCache ?s)"
      "forward example_env ?w ?s ?req ?host fresh_response = (catch_error NoMessage fresh_response, s')"
    by blast
  from t [THEN conjunct2, THEN conjunct2, THEN conjunct1]
  have "statusCode (catch_error NoMessage fresh_response) = Some 500
        \<and> written (catch_error NoMessage fresh_response) = written fresh_response @ [''Unknown error'']"
    by simp
  with c [of NoMessage] w0
  have e500: "catch_error NoMessage fresh_response
      = \<lparr>statusCode = Some 500, headers = [], written = [''Unknown error''], ended = False\<rparr>"
    by (cases "catch_error NoMessage fresh_response") simp
  from t' [THEN conjunct2, THEN conjunct1]
  have "statusCode (catch_error ?ip fresh_response) = Some 400
        \<and> written (catch_error ?ip fresh_response)
            = written fresh_response @ [''unable to serve with direct IP address'']"
    by simp
  with c [of ?ip] w0
  have e400: "catch_error ?ip fresh_response
      = \<lparr>statusCode = Some 400, headers = [],
          written = [''unable to serve with direct IP address''], ended = False\<rparr>"
    by (cases "catch_error ?ip fresh_response") simp
  from s' f(3) e500 have "\<exists>s'. resolve example_env ?w ?s ?host = (Inl NoMessage, s')
        \<and> map_of (resolveCache s') ?host = None
        \<and> forward example_env ?w ?s ?req ?host fresh_response
            = (\<lparr>statusCode = Some 500, headers = [], written = [''Unknown error''],
                ended = False\<rparr>, s')"
    by auto
  with ip e400 show ?thesis by simp
qed

subsection \<open>C9: the /flushcache endpoint\<close>

text \<open>
  C9 as stated fails in two places. On the control-plane domain the request
  \<open>OPTIONS /flushcache\<close> is answered 204, not 405. And a POST whose body has the
  \<open>domain\<close> field \<open>shop.example.com\<close>, a cached host, leaves the decision in the cache
  when the body is larger than 10 KB, or when it is cut off so that the \<open>end\<close> event does
  not come; the response is 200 \<open>Cache cleared\<close> all the same.
\<close>

theorem flushcache_endpoint_counterexample:
  "statusCode (fst (listener example_env (example_world (Inr None) txt_302) (example_state [])
      (flush_request ''OPTIONS'' [] True))) = Some 204
   \<and> statusCode (fst (listener example_env (example_world (Inr None) txt_302) (example_state [])
      (flush_request ''OPTIONS'' [] True))) \<noteq> Some 405
   \<and> qs_domain (example_world (Inr None) txt_302) (concat oversize_chunks)
       = QString ''shop.example.com''
   \<and> isFQDN (example_world (Inr None) txt_302) ''shop.example.com''
   \<and> statusCode (fst (listener example_env (example_world (Inr None) txt_302)
        (example_state [(''shop.example.com'', old_entry 5000)])
        (flush_request ''POST'' oversize_chunks True))) = Some 200
   \<and> (case snd (serve example_env (example_world (Inr None) txt_302)
                   (example_state [(''shop.example.com'', old_entry 5000)])
                   (flush_request ''POST'' oversize_chunks True)) of
         Inl e \<Rightarrow> []
       | Inr s1 \<Rightarrow> resolveCache s1)
       = [(''shop.example.com'', old_entry 5000)]
   \<and> (case snd (serve example_env (example_world (Inr None) txt_302)
                   (example_state [(''shop.example.com'', old_entry 5000)])
                   (flush_request ''POST'' [''domain=shop.example.com''] False)) of
         Inl e \<Rightarrow> []
       | Inr s1 \<Rightarrow> resolveCache s1)
       = [(''shop.example.com'', old_entry 5000)]"
proof -
  let ?w = "example_world (Inr None) txt_302"
  let ?s = "example_state [(''shop.example.com'', old_entry 5000)]"
  have o: "statusCode (fst (listener example_env ?w (example_state [])
      (flush_request ''OPTIONS'' [] True))) = Some 204"
    by code_simp
  have d: "qs_domain ?w (concat oversize_chunks) = QString ''shop.example.com''"
    by (simp add: example_world_def oversize_chunks_def startsWith_def)
  have f: "isFQDN ?w ''shop.example.com''" by code_simp
  have r: "req_url (flush_request ''POST'' oversize_chunks True) = Some ''/flushcache''"
    "req_method (flush_request ''POST'' oversize_chunks True) = Some ''POST''"
    "req_chunks (flush_request ''POST'' oversize_chunks True) = oversize_chunks"
    "req_ends (flush_request ''POST'' oversize_chunks True)"
    "request_host (flush_request ''POST'' oversize_chunks True) = ''home.example''"
    by (simp_all add: flush_request_def request_host_def, code_simp)
  have h: "HOME_DOMAIN example_env = Some ''home.example''" by (simp add: example_env_def)
  have p: "statusCode (fst (listener example_env ?w ?s (flush_request ''POST'' oversize_chunks True)))
      = Some 200"
    using listener_flushcache [of "flush_request ''POST'' oversize_chunks True" example_env ?w ?s]
    by (simp add: r h)
  have big: "sum_list (map length oversize_chunks) > MAX_DATA_SIZE"
    by (simp add: oversize_chunks_def MAX_DATA_SIZE_def)
  have "flush_events ?w (flush_request ''POST'' oversize_chunks True) ?s = Inr ?s"
    by (rule flush_events_none) (simp add: r big)
  then have b: "snd (serve example_env ?w ?s (flush_request ''POST'' oversize_chunks True)) = Inr ?s"
    using serve_flushcache [of "flush_request ''POST'' oversize_chunks True" example_env ?w ?s]
    by (simp add: r h)
  let ?cut = "flush_request ''POST'' [''domain=shop.example.com''] False"
  have rc: "req_url ?cut = Some ''/flushcache''" "req_method ?cut = Some ''POST''"
    "request_host ?cut = ''home.example''"
    by (simp_all add: flush_request_def request_host_def, code_simp)
  have "flush_events ?w ?cut ?s = Inr ?s"
    by (rule flush_events_none) (simp add: flush_request_def)
  then have c: "snd (serve example_env ?w ?s ?cut) = Inr ?s"
    using serve_flushcache [of ?cut example_env ?w ?s] by (simp add: rc h)
  have e: "resolveCache ?s = [(''shop.example.com'', old_entry 5000)]"
    by (simp add: example_state_def)
  from o d f p show ?thesis unfolding b c by (simp add: e)
qed

text \<open>
  C9, as the code has it. On the control-plane domain, at the path \<open>/flushcache\<close>: a POST
  is answered 200 \<open>Cache cleared\<close> whatever the body holds, before any of the body is
  read, and the cache is as it was when the response is ended; an OPTIONS request is
  answered 204 by the preflight branch, which comes before the path is looked at; every
  other method is answered 405 \<open>Method Not Allowed\<close>. Only the POST registers the
  callbacks that read the body, so only a POST served to the end of its body
  (\<open>serve\<close>) can change the state. When the body arrives whole and within the size limit,
  and its \<open>domain\<close> field is a string that is not empty, that \<open>isFQDN\<close> accepts and that
  the cache maps to a decision, the events of the body leave the cache mapping it to the
  empty value, and the next lookup of that host is the result of \<open>buildCache\<close>. When the
  body is cut off or beyond the size limit the events leave the state as it is. When the
  \<open>domain\<close> field is repeated the \<open>end\<close> callback throws what \<open>isFQDN\<close> throws, and
  nothing catches it.
\<close>

theorem flushcache_endpoint:
  "(req_url req = Some ''/flushcache'' \<and> HOME_DOMAIN env = Some (request_host req)
      \<and> request_host req \<noteq> [] \<longrightarrow>
      (req_method req = Some ''POST'' \<longrightarrow>
         statusCode (fst (listener env w s req)) = Some 200
         \<and> written (fst (listener env w s req)) = [''Cache cleared'']
         \<and> ended (fst (listener env w s req))
         \<and> snd (listener env w s req) = s
         \<and> registers_callbacks env w s req
         \<and> snd (serve env w s req) = flush_events w req s)
      \<and> (req_method req = Some ''OPTIONS'' \<longrightarrow>
         statusCode (fst (listener env w s req)) = Some 204
         \<and> written (fst (listener env w s req)) = []
         \<and> snd (listener env w s req) = s
         \<and> \<not> registers_callbacks env w s req
         \<and> snd (serve env w s req) = Inr s)
      \<and> (req_method req \<noteq> Some ''POST'' \<and> req_method req \<noteq> Some ''OPTIONS'' \<longrightarrow>
         statusCode (fst (listener env w s req)) = Some 405
         \<and> written (fst (listener env w s req)) = [''Method Not Allowed'']
         \<and> snd (listener env w s req) = s
         \<and> \<not> registers_callbacks env w s req
         \<and> snd (serve env w s req) = Inr s))
   \<and> (req_ends req \<and> sum_list (map length (req_chunks req)) \<le> MAX_DATA_SIZE
        \<and> qs_domain w (concat (req_chunks req)) = QString domain \<and> domain \<noteq> []
        \<and> isFQDN w domain \<and> map_of (resolveCache s) domain = Some (Entry c) \<longrightarrow>
        (\<exists>s1. flush_events w req s = Inr s1 \<and> policy s1 = policy s
           \<and> map_of (resolveCache s1) domain = Some Sentinel
           \<and> (\<forall>env' w'.
                 resolve env' w' s1 domain
                   = (case buildCache env' w' (policy s1) domain of
                        (Inl e', st') \<Rightarrow>
                          (Inl e', \<lparr>policy = st', resolveCache = snd (lru_get domain (resolveCache s1))\<rparr>)
                      | (Inr c', st') \<Rightarrow>
                          (Inr c', \<lparr>policy = st',
                                    resolveCache = lru_set domain (Entry c')
                                                     (snd (lru_get domain (resolveCache s1)))\<rparr>)))))
   \<and> (\<not> req_ends req \<or> sum_list (map length (req_chunks req)) > MAX_DATA_SIZE \<longrightarrow>
        flush_events w req s = Inr s)
   \<and> (req_ends req \<and> sum_list (map length (req_chunks req)) \<le> MAX_DATA_SIZE
        \<and> qs_domain w (concat (req_chunks req)) = QArray ds \<longrightarrow>
        flush_events w req s = Inl (isFQDN_throws w))"
proof (intro conjI)
  show "req_url req = Some ''/flushcache'' \<and> HOME_DOMAIN env = Some (request_host req)
      \<and> request_host req \<noteq> [] \<longrightarrow>
      (req_method req = Some ''POST'' \<longrightarrow>
         statusCode (fst (listener env w s req)) = Some 200
         \<and> written (fst (listener env w s req)) = [''Cache cleared'']
         \<and> ended (fst (listener env w s req))
         \<and> snd (listener env w s req) = s
         \<and> registers_callbacks env w s req
         \<and> snd (serve env w s req) = flush_events w req s)
      \<and> (req_method req = Some ''OPTIONS'' \<longrightarrow>
         statusCode (fst (listener env w s req)) = Some 204
         \<and> written (fst (listener env w s req)) = []
         \<and> snd (listener env w s req) = s
         \<and> \<not> registers_callbacks env w s req
         \<and> snd (serve env w s req) = Inr s)
      \<and> (req_method req \<noteq> Some ''POST'' \<and> req_method req \<noteq> Some ''OPTIONS'' \<longrightarrow>
         statusCode (fst (listener env w s req)) = Some 405
         \<and> written (fst (listener env w s req)) = [''Method Not Allowed'']
         \<and> snd (listener env w s req) = s
         \<and> \<not> registers_callbacks env w s req
         \<and> snd (serve env w s req) = Inr s)"
    using listener_flushcache [of req env w s] serve_flushcache [of req env w s] by simp
next
  show "req_ends req \<and> sum_list (map length (req_chunks req)) \<le> MAX_DATA_SIZE
        \<and> qs_domain w (concat (req_chunks req)) = QString domain \<and> domain \<noteq> []
        \<and> isFQDN w domain \<and> map_of (resolveCache s) domain = Some (Entry c) \<longrightarrow>
        (\<exists>s1. flush_events w req s = Inr s1 \<and> policy s1 = policy s
           \<and> map_of (resolveCache s1) domain = Some Sentinel
           \<and> (\<forall>env' w'.
                 resolve env' w' s1 domain
                   = (case buildCache env' w' (policy s1) domain of
                        (Inl e', st') \<Rightarrow>
                          (Inl e', \<lparr>policy = st', resolveCache = snd (lru_get domain (resolveCache s1))\<rparr>)
                      | (Inr c', st') \<Rightarrow>
                          (Inr c', \<lparr>policy = st',
                                    resolveCache = lru_set domain (Entry c')
                                                     (snd (lru_get domain (resolveCache s1)))\<rparr>))))"
  proof
    assume a: "req_ends req \<and> sum_list (map length (req_chunks req)) \<le> MAX_DATA_SIZE
        \<and> qs_domain w (concat (req_chunks req)) = QString domain \<and> domain \<noteq> []
        \<and> isFQDN w domain \<and> map_of (resolveCache s) domain = Some (Entry c)"
    then obtain s1 where s1: "flush_events w req s = Inr s1" "policy s1 = policy s"
        "map_of (resolveCache s1) domain = Some Sentinel"
      using flush_events_invalidates [of req w domain s c] by blast
    have "resolve env' w' s1 domain
                   = (case buildCache env' w' (policy s1) domain of
                        (Inl e', st') \<Rightarrow>
                          (Inl e', \<lparr>policy = st', resolveCache = snd (lru_get domain (resolveCache s1))\<rparr>)
                      | (Inr c', st') \<Rightarrow>
                          (Inr c', \<lparr>policy = st',
                                    resolveCache = lru_set domain (Entry c')
                                                     (snd (lru_get domain (resolveCache s1)))\<rparr>))"
      for env' w'
    proof -
      from s1(3) have "fresh_entry w' (map_of (resolveCache s1) domain) = None"
        by (simp add: fresh_entry_def)
      then show ?thesis by (rule resolve_build)
    qed
    with s1 show "\<exists>s1. flush_events w req s = Inr s1 \<and> policy s1 = policy s
           \<and> map_of (resolveCache s1) domain = Some Sentinel
           \<and> (\<forall>env' w'.
                 resolve env' w' s1 domain
                   = (case buildCache env' w' (policy s1) domain of
                        (Inl e', st') \<Rightarrow>
                          (Inl e', \<lparr>policy = st', resolveCache = snd (lru_get domain (resolveCache s1))\<rparr>)
                      | (Inr c', st') \<Rightarrow>
                          (Inr c', \<lparr>policy = st',
                                    resolveCache = lru_set domain (Entry c')
                                                     (snd (lru_get domain (resolveCache s1)))\<rparr>)))"
      by blast
  qed
next
  show "\<not> req_ends req \<or> sum_list (map length (req_chunks req)) > MAX_DATA_SIZE \<longrightarrow>
        flush_events w req s = Inr s"
    by (simp add: flush_events_none)
next
  show "req_ends req \<and> sum_list (map length (req_chunks req)) \<le> MAX_DATA_SIZE
        \<and> qs_domain w (concat (req_chunks req)) = QArray ds \<longrightarrow>
        flush_events w req s = Inl (isFQDN_throws w)"
    by (simp add: flush_events_array)
qed

text \<open>
  The theorem on the control-plane domain \<open>home.example\<close>, with a cached decision for
  \<open>shop.example.com\<close> that is not expired: the POST whose body arrives as
  \<open>domain=shop.\<close> and \<open>example.com\<close> is answered 200 \<open>Cache cleared\<close> with the decision
  still in the cache; the events of its body then leave the empty value under that
  host, so that the next lookup builds the decision from DNS again; a PUT is answered
  405; and a POST whose body is cut off leaves the decision where it is.
\<close>

theorem flushcache_endpoint_witness:
  "statusCode (fst (listener example_env (example_world (Inr None) txt_302)
      (example_state [(''shop.example.com'', old_entry 5000)])
      (flush_request ''POST'' [''domain=shop.'', ''example.com''] True))) = Some 200
   \<and> written (fst (listener example_env (example_world (Inr None) txt_302)
      (example_state [(''shop.example.com'', old_entry 5000)])
      (flush_request ''POST'' [''domain=shop.'', ''example.com''] True))) = [''Cache cleared'']
   \<and> resolveCache (snd (listener example_env (example_world (Inr None) txt_302)
      (example_state [(''shop.example.com'', old_entry 5000)])
      (flush_request ''POST'' [''domain=shop.'', ''example.com''] True)))
       = [(''shop.example.com'', old_entry 5000)]
   \<and> (case snd (serve example_env (example_world (Inr None) txt_302)
                   (example_state [(''shop.example.com'', old_entry 5000)])
                   (flush_request ''POST'' [''domain=shop.'', ''example.com''] True)) of
         Inl e \<Rightarrow> False
       | Inr s1 \<Rightarrow>
           map_of (resolveCache s1) ''shop.example.com'' = Some Sentinel
           \<and> fst (resolve example_env (example_world (Inr None) txt_302) s1 ''shop.example.com'')
               = Inr \<lparr>url = ''https://dest.example/app'', expand = False, blacklisted = False,
                      expire = 86401000, httpStatus = Some 302\<rparr>)
   \<and> statusCode (fst (listener example_env (example_world (Inr None) txt_302)
      (example_state [(''shop.example.com'', old_entry 5000)])
      (flush_request ''PUT'' [] True))) = Some 405
   \<and> (case snd (serve example_env (example_world (Inr None) txt_302)
                   (example_state [(''shop.example.com'', old_entry 5000)])
                   (flush_request ''POST'' [''domain=shop.'', ''example.com''] False)) of
         Inl e \<Rightarrow> []
       | Inr s1 \<Rightarrow> resolveCache s1)
       = [(''shop.example.com'', old_entry 5000)]"
proof -
  let ?w = "example_world (Inr None) txt_302"
  let ?cache = "[(''shop.example.com'', old_entry 5000)]"
  let ?s = "example_state ?cache"
  let ?post = "flush_request ''POST'' [''domain=shop.'', ''example.com''] True"
  let ?cut = "flush_request ''POST'' [''domain=shop.'', ''example.com''] False"
  let ?put = "flush_request ''PUT'' [] True"
  let ?host = "''shop.example.com''"
  let ?old = "\<lparr>url = ''https://old.example'', expand = False, blacklisted = False,
               expire = 5000, httpStatus = Some 301\<rparr>"
  let ?c = "\<lparr>url = ''https://dest.example/app'', expand = False, blacklisted = False,
              expire = 86401000, httpStatus = Some 302\<rparr>"
  have h: "req_url ?post = Some ''/flushcache'' \<and> HOME_DOMAIN example_env = Some (request_host ?post)
      \<and> request_host ?post \<noteq> []"
    "req_url ?put = Some ''/flushcache'' \<and> HOME_DOMAIN example_env = Some (request_host ?put)
      \<and> request_host ?put \<noteq> []"
    "req_method ?post = Some ''POST''"
    "req_method ?put \<noteq> Some ''POST'' \<and> req_method ?put \<noteq> Some ''OPTIONS''"
    by code_simp+
  have sc: "resolveCache ?s = ?cache" "policy ?s = policy_null"
    by (simp_all add: example_state_def)
  have b: "req_ends ?post \<and> sum_list (map length (req_chunks ?post)) \<le> MAX_DATA_SIZE
        \<and> qs_domain ?w (concat (req_chunks ?post)) = QString ?host \<and> ?host \<noteq> []
        \<and> isFQDN ?w ?host \<and> map_of (resolveCache ?s) ?host = Some (Entry ?old)"
    by code_simp
  have cut: "\<not> req_ends ?cut \<or> sum_list (map length (req_chunks ?cut)) > MAX_DATA_SIZE"
    by (simp add: flush_request_def)
  have bc: "fst (buildCache example_env ?w policy_null ?host) = Inr ?c" by code_simp
  note t = flushcache_endpoint [where req = ?post and env = example_env and w = ?w and s = ?s
      and domain = ?host and c = ?old]
  note t' = flushcache_endpoint [where req = ?put and env = example_env and w = ?w and s = ?s]
  note t'' = flushcache_endpoint [where req = ?cut and env = example_env and w = ?w and s = ?s]
  have hc: "req_url ?cut = Some ''/flushcache'' \<and> HOME_DOMAIN example_env = Some (request_host ?cut)
      \<and> request_host ?cut \<noteq> []"
    "req_method ?cut = Some ''POST''"
    by code_simp+
  from t [THEN conjunct1, THEN mp, OF h(1), THEN conjunct1, THEN mp, OF h(3)]
  have p: "statusCode (fst (listener example_env ?w ?s ?post)) = Some 200"
    "written (fst (listener example_env ?w ?s ?post)) = [''Cache cleared'']"
    "snd (listener example_env ?w ?s ?post) = ?s"
    "snd (serve example_env ?w ?s ?post) = flush_events ?w ?post ?s"
    by simp_all
  from t [THEN conjunct2, THEN conjunct1, THEN mp, OF b] obtain s1 where
    s1: "flush_events ?w ?post ?s = Inr s1" "policy s1 = policy ?s"
      "map_of (resolveCache s1) ?host = Some Sentinel"
      "resolve example_env ?w s1 ?host
         = (case buildCache example_env ?w (policy s1) ?host of
              (Inl e', st') \<Rightarrow>
                (Inl e', \<lparr>policy = st', resolveCache = snd (lru_get ?host (resolveCache s1))\<rparr>)
            | (Inr c', st') \<Rightarrow>
                (Inr c', \<lparr>policy = st',
                          resolveCache = lru_set ?host (Entry c')
                                           (snd (lru_get ?host (resolveCache s1)))\<rparr>))"
    by blast
  have r: "fst (resolve example_env ?w s1 ?host) = Inr ?c"
    unfolding s1(4) s1(2) sc(2) using bc
    by (cases "buildCache example_env ?w policy_null ?host") (simp split: sum.splits)
  from t' [THEN conjunct1, THEN mp, OF h(2), THEN conjunct2, THEN conjunct2, THEN mp, OF h(4)]
  have put: "statusCode (fst (listener example_env ?w ?s ?put)) = Some 405" by simp
  from t'' [THEN conjunct2, THEN conjunct2, THEN conjunct1, THEN mp, OF cut]
  have "flush_events ?w ?cut ?s = Inr ?s" .
  with t'' [THEN conjunct1, THEN mp, OF hc(1), THEN conjunct1, THEN mp, OF hc(2)]
  have c: "snd (serve example_env ?w ?s ?cut) = Inr ?s" by simp
  from p(1-3) put r s1(3) show ?thesis unfolding p(4) s1(1) c by (simp add: sc)
qed

subsection \<open>C10: /flushcache reads the key as it is written\<close>

text \<open>
  C10. The forwarding path keys the cache by the \<open>Host\<close> header in lower case with the
  port removed, and stores under no other key: every key of the cache is in lower case,
  from the empty cache on, whatever the requests and the events of their bodies. The
  \<open>end\<close> callback of /flushcache looks the \<open>domain\<close> field up as it is written. So a
  POST to /flushcache whose \<open>domain\<close> field has a letter that lower case changes finds
  no entry: the state, the cache with it, is left as it was, by the handler and by the
  events of the body that follow, and the response is still 200 \<open>Cache cleared\<close>.
\<close>

theorem flushcache_case_sensitive:
  "(keys_lower (resolveCache s) \<and> req_url req = Some ''/flushcache''
      \<and> HOME_DOMAIN env = Some (request_host req) \<and> request_host req \<noteq> []
      \<and> req_method req = Some ''POST''
      \<and> qs_domain w (fst (on_data (req_chunks req) ([], 0))) = QString domain
      \<and> toLowerCase domain \<noteq> domain \<longrightarrow>
      snd (listener env w s req) = s
      \<and> statusCode (fst (listener env w s req)) = Some 200
      \<and> written (fst (listener env w s req)) = [''Cache cleared'']
      \<and> registers_callbacks env w s req
      \<and> flush_events w req s = Inr s
      \<and> snd (serve env w s req) = Inr s)
   \<and> request_host req = strip_port (toLowerCase (orEmpty (req_host req)))
   \<and> toLowerCase (request_host req) = request_host req
   \<and> fst ` set (resolveCache (snd (resolve env w s host))) \<subseteq> insert host (fst ` set (resolveCache s))
   \<and> keys_lower []
   \<and> (keys_lower (resolveCache s) \<longrightarrow> keys_lower (resolveCache (snd (listener env w s req))))
   \<and> (keys_lower (resolveCache s) \<and> flush_events w req s = Inr s' \<longrightarrow>
        keys_lower (resolveCache s'))
   \<and> (keys_lower (resolveCache s) \<and> snd (serve env w s req) = Inr s' \<longrightarrow>
        keys_lower (resolveCache s'))"
proof (intro conjI)
  show "keys_lower (resolveCache s) \<and> req_url req = Some ''/flushcache''
      \<and> HOME_DOMAIN env = Some (request_host req) \<and> request_host req \<noteq> []
      \<and> req_method req = Some ''POST''
      \<and> qs_domain w (fst (on_data (req_chunks req) ([], 0))) = QString domain
      \<and> toLowerCase domain \<noteq> domain \<longrightarrow>
      snd (listener env w s req) = s
      \<and> statusCode (fst (listener env w s req)) = Some 200
      \<and> written (fst (listener env w s req)) = [''Cache cleared'']
      \<and> registers_callbacks env w s req
      \<and> flush_events w req s = Inr s
      \<and> snd (serve env w s req) = Inr s"
  proof
    assume a: "keys_lower (resolveCache s) \<and> req_url req = Some ''/flushcache''
      \<and> HOME_DOMAIN env = Some (request_host req) \<and> request_host req \<noteq> []
      \<and> req_method req = Some ''POST''
      \<and> qs_domain w (fst (on_data (req_chunks req) ([], 0))) = QString domain
      \<and> toLowerCase domain \<noteq> domain"
    then have "map_of (resolveCache s) domain = None" by (simp add: keys_lower_absent)
    with a have f: "flush_events w req s = Inr s"
      by (simp add: flush_events_absent)
    from a listener_flushcache [of req env w s]
    have "statusCode (fst (listener env w s req)) = Some 200"
      "written (fst (listener env w s req)) = [''Cache cleared'']"
      "snd (listener env w s req) = s" "registers_callbacks env w s req"
      by simp_all
    with f show "snd (listener env w s req) = s
      \<and> statusCode (fst (listener env w s req)) = Some 200
      \<and> written (fst (listener env w s req)) = [''Cache cleared'']
      \<and> registers_callbacks env w s req
      \<and> flush_events w req s = Inr s
      \<and> snd (serve env w s req) = Inr s"
      by (simp add: serve_snd)
  qed
  show "request_host req = strip_port (toLowerCase (orEmpty (req_host req)))"
    by (simp add: request_host_def)
  show "toLowerCase (request_host req) = request_host req" by (rule request_host_lower)
  show "fst ` set (resolveCache (snd (resolve env w s host))) \<subseteq> insert host (fst ` set (resolveCache s))"
    by (rule resolve_keys)
  show "keys_lower []" by (simp add: keys_lower_def)
  show "keys_lower (resolveCache s) \<longrightarrow> keys_lower (resolveCache (snd (listener env w s req)))"
    by (simp add: keys_lower_listener)
  show "keys_lower (resolveCache s) \<and> flush_events w req s = Inr s' \<longrightarrow>
        keys_lower (resolveCache s')"
    by (blast intro: keys_lower_flush_events)
  show "keys_lower (resolveCache s) \<and> snd (serve env w s req) = Inr s' \<longrightarrow>
        keys_lower (resolveCache s')"
  proof
    assume a: "keys_lower (resolveCache s) \<and> snd (serve env w s req) = Inr s'"
    then have l: "keys_lower (resolveCache (snd (listener env w s req)))"
      by (simp add: keys_lower_listener)
    from a have "flush_events w req (snd (listener env w s req)) = Inr s'
        \<or> s' = snd (listener env w s req)"
      unfolding serve_snd by (auto split: if_splits)
    with l show "keys_lower (resolveCache s')"
      by (blast intro: keys_lower_flush_events)
  qed
qed

text \<open>
  The theorem with a cached decision for \<open>shop.example.com\<close>: the POST with the body
  \<open>domain=Shop.Example.com\<close> is answered 200 \<open>Cache cleared\<close> and the decision is still
  in the cache, also after the events of the body.
\<close>

theorem flushcache_case_sensitive_witness:
  "toLowerCase ''Shop.Example.com'' \<noteq> ''Shop.Example.com''
   \<and> statusCode (fst (listener example_env (example_world (Inr None) txt_302)
        (example_state [(''shop.example.com'', old_entry 5000)])
        (flush_request ''POST'' [''domain=Shop.Example.com''] True))) = Some 200
   \<and> resolveCache (snd (listener example_env (example_world (Inr None) txt_302)
        (example_state [(''shop.example.com'', old_entry 5000)])
        (flush_request ''POST'' [''domain=Shop.Example.com''] True)))
       = [(''shop.example.com'', old_entry 5000)]
   \<and> (case snd (serve example_env (example_world (Inr None) txt_302)
                   (example_state [(''shop.example.com'', old_entry 5000)])
                   (flush_request ''POST'' [''domain=Shop.Example.com''] True)) of
         Inl e \<Rightarrow> []
       | Inr s1 \<Rightarrow> resolveCache s1)
       = [(''shop.example.com'', old_entry 5000)]"
proof -
  let ?w = "example_world (Inr None) txt_302"
  let ?s = "example_state [(''shop.example.com'', old_entry 5000)]"
  let ?req = "flush_request ''POST'' [''domain=Shop.Example.com''] True"
  have h: "keys_lower (resolveCache ?s) \<and> req_url ?req = Some ''/flushcache''
      \<and> HOME_DOMAIN example_env = Some (request_host ?req) \<and> request_host ?req \<noteq> []
      \<and> req_method ?req = Some ''POST''
      \<and> qs_domain ?w (fst (on_data (req_chunks ?req) ([], 0))) = QString ''Shop.Example.com''
      \<and> toLowerCase ''Shop.Example.com'' \<noteq> ''Shop.Example.com''"
    by code_simp
  from flushcache_case_sensitive [where s = ?s and req = ?req and env = example_env and w = ?w
      and domain = "''Shop.Example.com''", THEN conjunct1, THEN mp, OF h]
  have "snd (listener example_env ?w ?s ?req) = ?s"
    "statusCode (fst (listener example_env ?w ?s ?req)) = Some 200"
    "snd (serve example_env ?w ?s ?req) = Inr ?s"
    by simp_all
  with h show ?thesis by (simp add: example_state_def)
qed

end
